theory Spec2Isabelle
  imports Main "HOL-Library.Word"
begin

section \<open>BGP session timers and the control plane's supervision loop\<close>

text \<open>
  The development embeds \<^verbatim>\<open>ControlPlane.cpp\<close> (constructor, destructor and
  \<^verbatim>\<open>controlPlaneMain\<close>) together with the data members declared in
  \<^verbatim>\<open>BGPSession.hpp\<close>. The bodies of the \<^verbatim>\<open>BGPSession\<close> member
  functions live in \<^verbatim>\<open>BGPSession.cpp\<close>, which is not among the sources; they
  are modelled from the specification's state machine and every such definition says so.
  Simulated time is an integer count of time units.
\<close>

subsection \<open>Timers\<close>

text \<open>
  Modelled from the spec: the \<^verbatim>\<open>sc_event\<close> members \<^verbatim>\<open>m_BGPKeepalive\<close> and
  \<^verbatim>\<open>m_BGPHoldDown\<close> used as single-shot timers. A timer is unarmed, armed with an
  absolute deadline, or fired. Arming replaces any pending deadline; cancelling unarms.
\<close>

datatype Timer = Unarmed | Armed int | Fired

definition arm :: "int \<Rightarrow> int \<Rightarrow> Timer" where
  "arm now duration = Armed (now + duration)"

definition cancel :: Timer where
  "cancel = Unarmed"

fun due :: "int \<Rightarrow> Timer \<Rightarrow> bool" where
  "due now (Armed deadline) = (deadline \<le> now)"
| "due now Unarmed = False"
| "due now Fired = False"

subsection \<open>Sessions\<close>

datatype error = ConfigurationError | BadArrayNewLength | InvalidPointer | MismatchedDelete

text \<open>
  Modelled from the spec: \<^verbatim>\<open>BGPSessionParameters\<close> (its header is not among the
  sources) carries the hold-down time and the keepalive fraction.
\<close>

record BGPSessionParameters =
  holdDownTime :: int
  keepaliveFraction :: int

datatype SessionState = Stopped | Valid | Invalid

text \<open>
  The data members of \<^verbatim>\<open>class BGPSession\<close> as the header declares them. The mutex
  and the stored keepalive message carry no sequential state and are left out; the
  field \<open>phase\<close> is the state of the specification's state machine.
\<close>

record BGPSession =
  m_BGPKeepalive :: Timer
  m_BGPHoldDown :: Timer
  m_PeeringInterface :: int
  m_HoldDownTime :: int
  m_KeepaliveTime :: int
  m_KeepaliveFraction :: int
  m_SessionValidity :: bool
  m_BGPIdentifierPeer :: "32 word"
  phase :: SessionState

text \<open>C++ integer division truncates towards zero; the divisor must not be zero.\<close>

definition cpp_div :: "int \<Rightarrow> int \<Rightarrow> int" where
  "cpp_div a b = sgn a * sgn b * (\<bar>a\<bar> div \<bar>b\<bar>)"

text \<open>
  Modelled from the spec: \<^verbatim>\<open>BGPSession::setSessionParameters\<close>. The keepalive time
  is the hold-down time divided by the keepalive fraction (integer division); a
  non-positive hold-down time or keepalive time is rejected as a configuration error
  and leaves the session as it was.
\<close>

definition setSessionParameters :: "BGPSessionParameters \<Rightarrow> BGPSession \<Rightarrow> error + BGPSession" where
  "setSessionParameters p_SessionParam s =
     (if holdDownTime p_SessionParam \<le> 0 \<or> keepaliveFraction p_SessionParam = 0
      then Inl ConfigurationError
      else let k = cpp_div (holdDownTime p_SessionParam) (keepaliveFraction p_SessionParam)
           in if k \<le> 0 then Inl ConfigurationError
              else Inr (s\<lparr>m_HoldDownTime := holdDownTime p_SessionParam,
                          m_KeepaliveFraction := keepaliveFraction p_SessionParam,
                          m_KeepaliveTime := k\<rparr>))"

text \<open>
  Modelled from the spec: the constructor
  \<^verbatim>\<open>BGPSession(name, p_PeeringInterface, p_SessionParam)\<close>. A new session is
  stopped, has both timers unarmed, rides the given interface and binds the given
  parameters; invalid parameters reject the construction.
\<close>

definition BGPSession_new :: "int \<Rightarrow> BGPSessionParameters \<Rightarrow> error + BGPSession" where
  "BGPSession_new p_PeeringInterface p_SessionParam =
     setSessionParameters p_SessionParam
       \<lparr>m_BGPKeepalive = Unarmed, m_BGPHoldDown = Unarmed,
        m_PeeringInterface = p_PeeringInterface,
        m_HoldDownTime = 0, m_KeepaliveTime = 0, m_KeepaliveFraction = 0,
        m_SessionValidity = False, m_BGPIdentifierPeer = 0, phase = Stopped\<rparr>"

text \<open>
  Modelled from the spec: \<^verbatim>\<open>sessionStart\<close> arms both timers from the current time
  and makes the session valid; \<^verbatim>\<open>sessionStop\<close> cancels both timers.
\<close>

definition sessionStart :: "int \<Rightarrow> BGPSession \<Rightarrow> BGPSession" where
  "sessionStart now s =
     s\<lparr>m_BGPHoldDown := arm now (m_HoldDownTime s),
       m_BGPKeepalive := arm now (m_KeepaliveTime s),
       m_SessionValidity := True, phase := Valid\<rparr>"

definition sessionStop :: "BGPSession \<Rightarrow> BGPSession" where
  "sessionStop s = s\<lparr>m_BGPHoldDown := cancel, m_BGPKeepalive := cancel, phase := Stopped\<rparr>"

text \<open>
  Modelled from the spec: the two resets rearm their timer for the full interval from
  now while the session is valid and are no-ops otherwise. The mutex around the
  keepalive deadline has no effect on a sequential run.
\<close>

definition resetHoldDown :: "int \<Rightarrow> BGPSession \<Rightarrow> BGPSession" where
  "resetHoldDown now s =
     (if phase s = Valid then s\<lparr>m_BGPHoldDown := arm now (m_HoldDownTime s)\<rparr> else s)"

definition resetKeepalive :: "int \<Rightarrow> BGPSession \<Rightarrow> BGPSession" where
  "resetKeepalive now s =
     (if phase s = Valid then s\<lparr>m_BGPKeepalive := arm now (m_KeepaliveTime s)\<rparr> else s)"

text \<open>
  Modelled from the spec: \<^verbatim>\<open>isSessionValid\<close> is a pure query of the validity flag
  and answers false on a stopped session; \<^verbatim>\<open>isThisSession\<close> compares the peer
  identifier; \<^verbatim>\<open>setPeerIdentifier\<close> stores it.
\<close>

definition isSessionValid :: "BGPSession \<Rightarrow> bool" where
  "isSessionValid s = (phase s \<noteq> Stopped \<and> m_SessionValidity s)"

definition isThisSession :: "32 word \<Rightarrow> BGPSession \<Rightarrow> bool" where
  "isThisSession p_BGPIdentifier s = (m_BGPIdentifierPeer s = p_BGPIdentifier)"

definition setPeerIdentifier :: "32 word \<Rightarrow> BGPSession \<Rightarrow> BGPSession" where
  "setPeerIdentifier p_BGPIdentifier s = s\<lparr>m_BGPIdentifierPeer := p_BGPIdentifier\<rparr>"

text \<open>
  Modelled from the spec: the two timer handlers. \<^verbatim>\<open>sendKeepalive\<close> runs when the
  keepalive timer fires: while the session is valid it writes one keepalive message
  to \<^verbatim>\<open>port_ToDataPlane\<close> (recorded as the time and the outbound interface) and
  rearms the keepalive timer; otherwise the firing is discarded.
  \<^verbatim>\<open>sessionInvalidation\<close> runs when the hold-down timer fires: a valid session
  becomes invalid and its keepalive timer is cancelled; otherwise the firing is
  discarded.
\<close>

type_synonym emission = "int \<times> int"

definition sendKeepalive :: "int \<Rightarrow> BGPSession \<Rightarrow> BGPSession \<times> emission list" where
  "sendKeepalive now s =
     (if phase s = Valid then (resetKeepalive now s, [(now, m_PeeringInterface s)])
      else (s, []))"

definition sessionInvalidation :: "BGPSession \<Rightarrow> BGPSession" where
  "sessionInvalidation s =
     (if phase s = Valid
      then s\<lparr>m_SessionValidity := False, m_BGPKeepalive := cancel, phase := Invalid\<rparr>
      else s)"

subsection \<open>One session under the clock\<close>

text \<open>
  Modelled from the spec: the scheduler that notifies the two handlers (SystemC's
  kernel, outside the sources). At each instant the timers whose deadline has elapsed
  fire, the keepalive timer before the hold-down timer, so that a keepalive due at
  the very instant of the hold-down expiry is still sent (the specification's example
  expects emissions at 60, 120 and 180 with the hold-down expiring at 180).
\<close>

definition fire_keepalive :: "int \<Rightarrow> BGPSession \<Rightarrow> BGPSession \<times> emission list" where
  "fire_keepalive now s =
     (if due now (m_BGPKeepalive s) then sendKeepalive now (s\<lparr>m_BGPKeepalive := Fired\<rparr>)
      else (s, []))"

definition fire_holdDown :: "int \<Rightarrow> BGPSession \<Rightarrow> BGPSession" where
  "fire_holdDown now s =
     (if due now (m_BGPHoldDown s) then sessionInvalidation (s\<lparr>m_BGPHoldDown := Fired\<rparr>)
      else s)"

definition session_tick :: "int \<Rightarrow> BGPSession \<Rightarrow> BGPSession \<times> emission list" where
  "session_tick now s =
     (case fire_keepalive now s of (s1, out) \<Rightarrow> (fire_holdDown now s1, out))"

text \<open>The calls the owner of a session can make on it between two instants.\<close>

datatype Call =
    CallResetHoldDown
  | CallResetKeepalive
  | CallSessionStop
  | CallSessionStart
  | CallSetPeerIdentifier "32 word"
  | CallSetSessionParameters BGPSessionParameters

fun apply_call :: "int \<Rightarrow> Call \<Rightarrow> BGPSession \<Rightarrow> BGPSession" where
  "apply_call now CallResetHoldDown s = resetHoldDown now s"
| "apply_call now CallResetKeepalive s = resetKeepalive now s"
| "apply_call now CallSessionStop s = sessionStop s"
| "apply_call now CallSessionStart s = sessionStart now s"
| "apply_call now (CallSetPeerIdentifier i) s = setPeerIdentifier i s"
| "apply_call now (CallSetSessionParameters p) s =
     (case setSessionParameters p s of Inl e \<Rightarrow> s | Inr s' \<Rightarrow> s')"

fun apply_calls :: "int \<Rightarrow> Call list \<Rightarrow> BGPSession \<Rightarrow> BGPSession" where
  "apply_calls now [] s = s"
| "apply_calls now (c # cs) s = apply_calls now cs (apply_call now c s)"

record World =
  now :: int
  sess :: BGPSession
  sink :: "emission list"

text \<open>
  One time unit passes: the clock advances, the due timers fire, then the owner's
  calls of that instant run in order.
\<close>

definition step :: "Call list \<Rightarrow> World \<Rightarrow> World" where
  "step cs w =
     (let t = now w + 1 in
      case session_tick t (sess w) of
        (s1, out) \<Rightarrow> \<lparr>now = t, sess = apply_calls t cs s1, sink = sink w @ out\<rparr>)"

fun run :: "Call list list \<Rightarrow> World \<Rightarrow> World" where
  "run [] w = w"
| "run (cs # css) w = run css (step cs w)"

text \<open>The answers of \<^verbatim>\<open>isSessionValid\<close> at the start and after every time unit.\<close>

fun observe :: "Call list list \<Rightarrow> World \<Rightarrow> bool list" where
  "observe [] w = [isSessionValid (sess w)]"
| "observe (cs # css) w = isSessionValid (sess w) # observe css (step cs w)"

definition started :: "int \<Rightarrow> BGPSession \<Rightarrow> World" where
  "started t0 s = \<lparr>now = t0, sess = sessionStart t0 s, sink = []\<rparr>"

text \<open>Calls that leave the hold-down timer and the session's phase alone.\<close>

fun holdDown_quiet :: "Call \<Rightarrow> bool" where
  "holdDown_quiet CallResetHoldDown = False"
| "holdDown_quiet CallSessionStop = False"
| "holdDown_quiet CallSessionStart = False"
| "holdDown_quiet CallResetKeepalive = True"
| "holdDown_quiet (CallSetPeerIdentifier i) = True"
| "holdDown_quiet (CallSetSessionParameters p) = True"

text \<open>Calls that neither rearm the keepalive timer nor change its interval.\<close>

fun keepalive_quiet :: "Call \<Rightarrow> bool" where
  "keepalive_quiet CallResetKeepalive = False"
| "keepalive_quiet CallSessionStart = False"
| "keepalive_quiet (CallSetSessionParameters p) = False"
| "keepalive_quiet CallResetHoldDown = True"
| "keepalive_quiet CallSessionStop = True"
| "keepalive_quiet (CallSetPeerIdentifier i) = True"

text \<open>Timer firings that reach a session's handlers, each with its arrival time.\<close>

datatype Firing = KeepaliveFired | HoldDownFired

fun deliver :: "int \<times> Firing \<Rightarrow> BGPSession \<Rightarrow> BGPSession \<times> emission list" where
  "deliver (t, KeepaliveFired) s = sendKeepalive t s"
| "deliver (t, HoldDownFired) s = (sessionInvalidation s, [])"

fun deliver_all :: "(int \<times> Firing) list \<Rightarrow> BGPSession \<Rightarrow> BGPSession \<times> emission list" where
  "deliver_all [] s = (s, [])"
| "deliver_all (f # fs) s =
     (case deliver f s of (s1, out1) \<Rightarrow>
        (case deliver_all fs s1 of (s2, out2) \<Rightarrow> (s2, out1 @ out2)))"

subsection \<open>The control plane\<close>

text \<open>
  The members \<^verbatim>\<open>ControlPlane.cpp\<close> uses: the receiving FIFO, the session count
  and the array of session pointers. A slot of the array holds a live session object
  or no object (an uninitialised or deleted pointer). The message type is opaque.
\<close>

record 'msg ControlPlane =
  m_ReceivingBuffer :: "'msg list"
  m_SessionCount :: int
  m_BGPSessions :: "BGPSession option list"

text \<open>Following \<^verbatim>\<open>m_BGPSessions[i]->\<close>: an index outside the array or a slot without an
  object is an invalid pointer.\<close>

definition deref :: "BGPSession option list \<Rightarrow> int \<Rightarrow> error + BGPSession" where
  "deref arr i =
     (if 0 \<le> i \<and> i < int (length arr)
      then (case arr ! nat i of None \<Rightarrow> Inl InvalidPointer | Some s \<Rightarrow> Inr s)
      else Inl InvalidPointer)"

text \<open>The calls the control plane can make on its sessions and collaborators, as they
  appear in a log of one run. A deletion is logged with the session object as it
  stands when \<^verbatim>\<open>delete\<close> reaches it.\<close>

datatype Event =
    NumAvailable nat
  | IsSessionValid int bool
  | SessionStart int
  | DeleteSession int BGPSession
  | SessionStop int
  | IsThisSession int
  | ResetHoldDown int
  | ResetKeepalive int
  | RemoveRoutes int
  | Notification int

fun is_reset :: "Event \<Rightarrow> bool" where
  "is_reset (ResetHoldDown i) = True"
| "is_reset (ResetKeepalive i) = True"
| "is_reset e = False"

fun is_withdrawal :: "Event \<Rightarrow> bool" where
  "is_withdrawal (RemoveRoutes i) = True"
| "is_withdrawal (Notification i) = True"
| "is_withdrawal e = False"

text \<open>The calls \<^verbatim>\<open>controlPlaneMain\<close> is seen to make.\<close>

fun is_query :: "Event \<Rightarrow> bool" where
  "is_query (NumAvailable n) = True"
| "is_query (IsSessionValid i v) = True"
| "is_query (SessionStart i) = True"
| "is_query e = False"

text \<open>
  The constructor: \<^verbatim>\<open>new BGPSession*[m_SessionCount]\<close> fails on a negative count;
  the loop then creates the session of each interface \<open>i\<close> from the same parameters.
\<close>

function create_sessions ::
  "int \<Rightarrow> int \<Rightarrow> BGPSessionParameters \<Rightarrow> BGPSession option list \<Rightarrow> error + BGPSession option list" where
  "create_sessions i n p_BGPParameters arr =
     (if i < n
      then (if 0 \<le> i \<and> i < int (length arr)
            then (case BGPSession_new i p_BGPParameters of
                    Inl e \<Rightarrow> Inl e
                  | Inr s \<Rightarrow> create_sessions (i + 1) n p_BGPParameters (arr[nat i := Some s]))
            else Inl InvalidPointer)
      else Inr arr)"
  by pat_completeness auto
termination
  by (relation "measure (\<lambda>(i, n, p, arr). nat (n - i))") auto

definition ControlPlane_new :: "int \<Rightarrow> BGPSessionParameters \<Rightarrow> error + 'msg ControlPlane" where
  "ControlPlane_new p_Sessions p_BGPParameters =
     (if p_Sessions < 0 then Inl BadArrayNewLength
      else case create_sessions 0 p_Sessions p_BGPParameters (replicate (nat p_Sessions) None) of
             Inl e \<Rightarrow> Inl e
           | Inr arr \<Rightarrow> Inr \<lparr>m_ReceivingBuffer = [], m_SessionCount = p_Sessions,
                             m_BGPSessions = arr\<rparr>)"

text \<open>
  The destructor. Its loop deletes each session object; every one of them came from a
  scalar \<^verbatim>\<open>new BGPSession(...)\<close>, so these deletions match. Its last statement is
  \<^verbatim>\<open>delete m_BGPSessions\<close>, a scalar delete of the array that the constructor
  obtained from \<^verbatim>\<open>new BGPSession*[m_SessionCount]\<close>: the two forms do not match,
  the behaviour is undefined, and the model ends there with an error.
\<close>

function delete_sessions ::
  "int \<Rightarrow> 'msg ControlPlane \<Rightarrow> Event list \<Rightarrow> error + ('msg ControlPlane \<times> Event list)" where
  "delete_sessions i cp tr =
     (if i < m_SessionCount cp
      then (case deref (m_BGPSessions cp) i of
              Inl e \<Rightarrow> Inl e
            | Inr s \<Rightarrow> delete_sessions (i + 1)
                        (cp\<lparr>m_BGPSessions := (m_BGPSessions cp)[nat i := None]\<rparr>)
                        (tr @ [DeleteSession i s]))
      else Inr (cp, tr))"
  by pat_completeness auto
termination
  by (relation "measure (\<lambda>(i, cp, tr). nat (m_SessionCount cp - i))") auto

definition ControlPlane_delete ::
  "'msg ControlPlane \<Rightarrow> error + ('msg ControlPlane \<times> Event list)" where
  "ControlPlane_delete cp =
     (case delete_sessions 0 cp [] of
        Inl e \<Rightarrow> Inl e
      | Inr (cp1, tr) \<Rightarrow> Inl MismatchedDelete)"

text \<open>\<^verbatim>\<open>controlPlaneMain\<close>, first loop: start every session at the current time.\<close>

function start_sessions ::
  "int \<Rightarrow> int \<Rightarrow> 'msg ControlPlane \<Rightarrow> Event list \<Rightarrow> error + ('msg ControlPlane \<times> Event list)" where
  "start_sessions t i cp tr =
     (if i < m_SessionCount cp
      then (case deref (m_BGPSessions cp) i of
              Inl e \<Rightarrow> Inl e
            | Inr s \<Rightarrow> start_sessions t (i + 1)
                        (cp\<lparr>m_BGPSessions := (m_BGPSessions cp)[nat i := Some (sessionStart t s)]\<rparr>)
                        (tr @ [SessionStart i]))
      else Inr (cp, tr))"
  by pat_completeness auto
termination
  by (relation "measure (\<lambda>(t, i, cp, tr). nat (m_SessionCount cp - i))") auto

text \<open>
  \<^verbatim>\<open>controlPlaneMain\<close>, the body of \<^verbatim>\<open>while(true)\<close> after \<^verbatim>\<open>wait()\<close> returns.
  The block under \<^verbatim>\<open>num_available() > 0\<close> holds only the comment
  \<^verbatim>\<open>//Handle the message here\<close>, and the block under \<^verbatim>\<open>!isSessionValid()\<close> only the
  comment \<^verbatim>\<open>//remove the routes behind the interface i\<close>: both are empty.
\<close>

function verify_sessions ::
  "int \<Rightarrow> 'msg ControlPlane \<Rightarrow> Event list \<Rightarrow> error + ('msg ControlPlane \<times> Event list)" where
  "verify_sessions i cp tr =
     (if i < m_SessionCount cp
      then (case deref (m_BGPSessions cp) i of
              Inl e \<Rightarrow> Inl e
            | Inr s \<Rightarrow>
                (let v = isSessionValid s;
                     cp1 = (if \<not> v then cp else cp)
                 in verify_sessions (i + 1) cp1 (tr @ [IsSessionValid i v])))
      else Inr (cp, tr))"
  by pat_completeness auto
termination
  by (relation "measure (\<lambda>(i, cp, tr). nat (m_SessionCount cp - i))") auto

definition controlPlaneMain_wake ::
  "'msg ControlPlane \<Rightarrow> error + ('msg ControlPlane \<times> Event list)" where
  "controlPlaneMain_wake cp =
     (let n = length (m_ReceivingBuffer cp);
          cp1 = (if n > 0 then cp else cp)
      in verify_sessions 0 cp1 [NumAvailable n])"

text \<open>
  While the thread is suspended in \<^verbatim>\<open>wait()\<close> one clock period (one time unit)
  passes: the timers of every session run, and the data plane may write messages into
  the receiving FIFO. The keepalives the sessions send go to the data plane and leave
  no trace in the control plane.
\<close>

definition wait_clk :: "int \<Rightarrow> 'msg list \<Rightarrow> 'msg ControlPlane \<Rightarrow> 'msg ControlPlane" where
  "wait_clk t arrivals cp =
     cp\<lparr>m_BGPSessions := map (map_option (\<lambda>s. fst (session_tick t s))) (m_BGPSessions cp),
        m_ReceivingBuffer := m_ReceivingBuffer cp @ arrivals\<rparr>"

text \<open>The loop never ends by itself; it runs for as many clock edges as the
  simulation delivers, each with the messages that arrived before it.\<close>

fun controlPlaneMain_loop ::
  "'msg list list \<Rightarrow> int \<Rightarrow> 'msg ControlPlane \<Rightarrow> Event list \<Rightarrow> error + ('msg ControlPlane \<times> Event list)" where
  "controlPlaneMain_loop [] t cp tr = Inr (cp, tr)"
| "controlPlaneMain_loop (arrivals # rest) t cp tr =
     (case controlPlaneMain_wake (wait_clk (t + 1) arrivals cp) of
        Inl e \<Rightarrow> Inl e
      | Inr (cp1, tr1) \<Rightarrow> controlPlaneMain_loop rest (t + 1) cp1 (tr @ tr1))"

definition controlPlaneMain ::
  "'msg list list \<Rightarrow> int \<Rightarrow> 'msg ControlPlane \<Rightarrow> error + ('msg ControlPlane \<times> Event list)" where
  "controlPlaneMain clk t0 cp =
     (case start_sessions t0 0 cp [] of
        Inl e \<Rightarrow> Inl e
      | Inr (cp1, tr) \<Rightarrow> controlPlaneMain_loop clk t0 cp1 tr)"

text \<open>A control plane as its constructor leaves it: the count is the length of the
  array and every slot holds a session object.\<close>

definition wf_ControlPlane :: "'msg ControlPlane \<Rightarrow> bool" where
  "wf_ControlPlane cp =
     (m_SessionCount cp = int (length (m_BGPSessions cp)) \<and>
      list_all (\<lambda>x. x \<noteq> None) (m_BGPSessions cp))"

text \<open>The relation between the three interval parameters of a session.\<close>

definition params_inv :: "BGPSession \<Rightarrow> bool" where
  "params_inv s =
     (m_KeepaliveTime s = m_HoldDownTime s div m_KeepaliveFraction s
      \<and> 0 < m_KeepaliveTime s \<and> m_KeepaliveTime s \<le> m_HoldDownTime s
      \<and> (m_KeepaliveTime s < m_HoldDownTime s) = (2 \<le> m_KeepaliveFraction s))"

subsection \<open>Concrete sessions and control planes\<close>

text \<open>The specification's example parameters (hold-down 180, fraction 3), and two
  sessions with short intervals for runs of a few time units.\<close>

definition idle_session :: "int \<Rightarrow> BGPSession" where
  "idle_session i =
     \<lparr>m_BGPKeepalive = Unarmed, m_BGPHoldDown = Unarmed, m_PeeringInterface = i,
      m_HoldDownTime = 180, m_KeepaliveTime = 60, m_KeepaliveFraction = 3,
      m_SessionValidity = False, m_BGPIdentifierPeer = 0, phase = Stopped\<rparr>"

definition two_idle :: "unit ControlPlane" where
  "two_idle = \<lparr>m_ReceivingBuffer = [], m_SessionCount = 2,
               m_BGPSessions = [Some (idle_session 0), Some (idle_session 1)]\<rparr>"

definition short_session :: BGPSession where
  "short_session =
     \<lparr>m_BGPKeepalive = Unarmed, m_BGPHoldDown = Unarmed, m_PeeringInterface = 0,
      m_HoldDownTime = 6, m_KeepaliveTime = 2, m_KeepaliveFraction = 3,
      m_SessionValidity = False, m_BGPIdentifierPeer = 0, phase = Stopped\<rparr>"

definition quick_session :: BGPSession where
  "quick_session =
     \<lparr>m_BGPKeepalive = Unarmed, m_BGPHoldDown = Unarmed, m_PeeringInterface = 0,
      m_HoldDownTime = 3, m_KeepaliveTime = 1, m_KeepaliveFraction = 3,
      m_SessionValidity = False, m_BGPIdentifierPeer = 0, phase = Stopped\<rparr>"

text \<open>A control plane with one session; its messages are the BGP identifiers of
  their senders.\<close>

definition one_session :: "32 word ControlPlane" where
  "one_session = \<lparr>m_ReceivingBuffer = [], m_SessionCount = 1,
                  m_BGPSessions = [Some quick_session]\<rparr>"

definition running_session :: BGPSession where
  "running_session = sessionStart 0 quick_session"

definition one_running :: "32 word ControlPlane" where
  "one_running = \<lparr>m_ReceivingBuffer = [], m_SessionCount = 1,
                  m_BGPSessions = [Some running_session]\<rparr>"

text \<open>The loops are unfolded one iteration at a time, by hand.\<close>

declare create_sessions.simps [simp del]
declare delete_sessions.simps [simp del]
declare start_sessions.simps [simp del]
declare verify_sessions.simps [simp del]


section \<open>Properties of a session\<close>

subsection \<open>Interval parameters\<close>

lemma cpp_div_pos: "0 < a \<Longrightarrow> 0 < b \<Longrightarrow> cpp_div a b = a div b"
  by (simp add: cpp_div_def)

lemma cpp_div_neg: "0 < a \<Longrightarrow> b < 0 \<Longrightarrow> cpp_div a b \<le> 0"
  by (simp add: cpp_div_def pos_imp_zdiv_nonneg_iff)

lemma setSessionParameters_inv:
  assumes "setSessionParameters p s = Inr s'"
  shows "params_inv s'"
proof -
  let ?h = "holdDownTime p" and ?f = "keepaliveFraction p"
  from assms have h: "0 < ?h" and f0: "?f \<noteq> 0" and k: "0 < cpp_div ?h ?f"
    and s': "s' = s\<lparr>m_HoldDownTime := ?h, m_KeepaliveFraction := ?f, m_KeepaliveTime := cpp_div ?h ?f\<rparr>"
    by (auto simp: setSessionParameters_def Let_def split: if_splits)
  have f: "0 < ?f"
  proof (rule ccontr)
    assume "\<not> 0 < ?f"
    with f0 have "?f < 0" by simp
    from cpp_div_neg[OF h this] k show False by simp
  qed
  have e: "cpp_div ?h ?f = ?h div ?f" using h f by (rule cpp_div_pos)
  have le: "?h div ?f \<le> ?h"
  proof (cases "?f = 1")
    case True then show ?thesis by simp
  next
    case False
    with f have "1 < ?f" by simp
    with h have "?h div ?f < ?h" by (simp add: int_div_less_self)
    then show ?thesis by simp
  qed
  have strict: "(?h div ?f < ?h) = (2 \<le> ?f)"
  proof
    assume "2 \<le> ?f"
    then show "?h div ?f < ?h" using h by (simp add: int_div_less_self)
  next
    assume a: "?h div ?f < ?h"
    show "2 \<le> ?f"
    proof (rule ccontr)
      assume "\<not> 2 \<le> ?f"
      with f have "?f = 1" by simp
      with a show False by simp
    qed
  qed
  show ?thesis using k e le strict by (simp add: params_inv_def s')
qed

lemma params_inv_cong:
  "m_KeepaliveTime s' = m_KeepaliveTime s \<Longrightarrow> m_HoldDownTime s' = m_HoldDownTime s \<Longrightarrow>
   m_KeepaliveFraction s' = m_KeepaliveFraction s \<Longrightarrow> params_inv s' = params_inv s"
  by (simp add: params_inv_def)

lemma fire_keepalive_params:
  "params_inv (fst (fire_keepalive t s)) = params_inv s"
  by (rule params_inv_cong) (simp_all add: fire_keepalive_def sendKeepalive_def resetKeepalive_def)

lemma fire_holdDown_params:
  "params_inv (fire_holdDown t s) = params_inv s"
  by (rule params_inv_cong) (simp_all add: fire_holdDown_def sessionInvalidation_def)

lemma session_tick_params:
  "params_inv (fst (session_tick t s)) = params_inv s"
proof (cases "fire_keepalive t s")
  case (Pair s1 out)
  with fire_keepalive_params[of t s] fire_holdDown_params[of t s1]
  show ?thesis by (simp add: session_tick_def)
qed

lemma apply_call_params:
  assumes "params_inv s"
  shows "params_inv (apply_call t c s)"
proof (cases c)
  case (CallSetSessionParameters p)
  with assms show ?thesis
    by (auto dest: setSessionParameters_inv split: sum.splits)
next
  case CallResetHoldDown
  have "params_inv (resetHoldDown t s) = params_inv s"
    by (rule params_inv_cong) (simp_all add: resetHoldDown_def)
  with assms CallResetHoldDown show ?thesis by simp
next
  case CallResetKeepalive
  have "params_inv (resetKeepalive t s) = params_inv s"
    by (rule params_inv_cong) (simp_all add: resetKeepalive_def)
  with assms CallResetKeepalive show ?thesis by simp
next
  case CallSessionStop
  have "params_inv (sessionStop s) = params_inv s"
    by (rule params_inv_cong) (simp_all add: sessionStop_def)
  with assms CallSessionStop show ?thesis by simp
next
  case CallSessionStart
  have "params_inv (sessionStart t s) = params_inv s"
    by (rule params_inv_cong) (simp_all add: sessionStart_def)
  with assms CallSessionStart show ?thesis by simp
next
  case (CallSetPeerIdentifier x)
  have "params_inv (setPeerIdentifier x s) = params_inv s"
    by (rule params_inv_cong) (simp_all add: setPeerIdentifier_def)
  with assms CallSetPeerIdentifier show ?thesis by simp
qed

lemma apply_calls_params: "params_inv s \<Longrightarrow> params_inv (apply_calls t cs s)"
  by (induction cs arbitrary: s) (simp_all add: apply_call_params)

lemma step_params: "params_inv (sess w) \<Longrightarrow> params_inv (sess (step cs w))"
proof -
  assume a: "params_inv (sess w)"
  obtain s1 out where t: "session_tick (now w + 1) (sess w) = (s1, out)"
    by (cases "session_tick (now w + 1) (sess w)")
  with session_tick_params[of "now w + 1" "sess w"] a have "params_inv s1" by simp
  then show ?thesis by (simp add: step_def t Let_def apply_calls_params)
qed

lemma run_params: "params_inv (sess w) \<Longrightarrow> params_inv (sess (run css w))"
  by (induction css arbitrary: w) (simp_all add: step_params)

text \<open>
  Under the modelled parametrization, a constructed session keeps, through any run,
  a keepalive time equal to the hold-down time divided by the fraction, positive and
  at most the hold-down time; it is strictly smaller exactly when the fraction is at
  least two.
\<close>

lemma session_parameters_invariant:
  assumes "BGPSession_new i p = Inr s"
  shows "params_inv (sess (run css (started t0 s)))"
proof -
  from assms have "params_inv s"
    unfolding BGPSession_new_def by (rule setSessionParameters_inv)
  moreover have "params_inv (sessionStart t0 s) = params_inv s"
    by (rule params_inv_cong) (simp_all add: sessionStart_def)
  ultimately have "params_inv (sess (started t0 s))"
    by (simp add: started_def)
  then show ?thesis by (rule run_params)
qed

text \<open>A keepalive fraction of one passes the modelled parametrization and gives a
  keepalive time equal to the hold-down time.\<close>

lemma fraction_one_accepted:
  "setSessionParameters \<lparr>holdDownTime = 180, keepaliveFraction = 1\<rparr> (idle_session 0) =
     Inr ((idle_session 0)\<lparr>m_HoldDownTime := 180, m_KeepaliveFraction := 1, m_KeepaliveTime := 180\<rparr>)"
  by (simp add: setSessionParameters_def cpp_div_def)

subsection \<open>Evaluation rules for concrete runs\<close>

lemmas session_ops =
  started_def sessionStart_def sessionStop_def resetHoldDown_def resetKeepalive_def
  setPeerIdentifier_def setSessionParameters_def sendKeepalive_def sessionInvalidation_def
  fire_keepalive_def fire_holdDown_def session_tick_def step_def isSessionValid_def
  arm_def cancel_def cpp_div_def Let_def

lemmas supervisor_ops =
  controlPlaneMain_def controlPlaneMain_wake_def wait_clk_def deref_def
  start_sessions.simps verify_sessions.simps delete_sessions.simps ControlPlane_delete_def

subsection \<open>The clock\<close>

lemma step_now: "now (step cs w) = now w + 1"
  by (simp add: step_def Let_def split: prod.splits)

lemma step_sess:
  "sess (step cs w) =
     apply_calls (now w + 1) cs
       (fire_holdDown (now w + 1) (fst (fire_keepalive (now w + 1) (sess w))))"
  by (simp add: step_def session_tick_def Let_def split: prod.splits)

lemma step_sink: "sink (step cs w) = sink w @ snd (fire_keepalive (now w + 1) (sess w))"
  by (simp add: step_def session_tick_def Let_def split: prod.splits)

lemma run_now: "now (run css w) = now w + int (length css)"
  by (induction css arbitrary: w) (simp_all add: step_now)

lemma run_snoc: "run (css @ [cs]) w = step cs (run css w)"
  by (induction css arbitrary: w) simp_all

subsection \<open>Hold-down expiry\<close>

lemma fire_keepalive_hold:
  "phase (fst (fire_keepalive t s)) = phase s"
  "m_SessionValidity (fst (fire_keepalive t s)) = m_SessionValidity s"
  "m_BGPHoldDown (fst (fire_keepalive t s)) = m_BGPHoldDown s"
  by (simp_all add: fire_keepalive_def sendKeepalive_def resetKeepalive_def)

lemma apply_call_hold:
  assumes "holdDown_quiet c"
  shows "phase (apply_call t c s) = phase s"
    "m_SessionValidity (apply_call t c s) = m_SessionValidity s"
    "m_BGPHoldDown (apply_call t c s) = m_BGPHoldDown s"
  using assms
  by (cases c; simp add: resetKeepalive_def setPeerIdentifier_def setSessionParameters_def Let_def
        split: sum.splits if_splits; fastforce)+

lemma apply_calls_hold:
  assumes "list_all holdDown_quiet cs"
  shows "phase (apply_calls t cs s) = phase s"
    "m_SessionValidity (apply_calls t cs s) = m_SessionValidity s"
    "m_BGPHoldDown (apply_calls t cs s) = m_BGPHoldDown s"
  using assms by (induction cs arbitrary: s) (simp_all add: apply_call_hold)

lemma step_pending:
  assumes "list_all holdDown_quiet cs" "phase (sess w) = Valid" "m_SessionValidity (sess w)"
    "m_BGPHoldDown (sess w) = Armed d" "now w + 1 < d"
  shows "phase (sess (step cs w)) = Valid" "m_SessionValidity (sess (step cs w))"
    "m_BGPHoldDown (sess (step cs w)) = Armed d"
  using assms
  by (simp_all add: step_sess apply_calls_hold fire_holdDown_def fire_keepalive_hold)

lemma step_expire:
  assumes "list_all holdDown_quiet cs" "phase (sess w) = Valid"
    "m_BGPHoldDown (sess w) = Armed d" "d \<le> now w + 1"
  shows "phase (sess (step cs w)) = Invalid" "\<not> m_SessionValidity (sess (step cs w))"
  using assms
  by (simp_all add: step_sess apply_calls_hold fire_holdDown_def fire_keepalive_hold
      sessionInvalidation_def)

lemma step_expired:
  assumes "list_all holdDown_quiet cs" "phase (sess w) = Invalid" "\<not> m_SessionValidity (sess w)"
  shows "phase (sess (step cs w)) = Invalid" "\<not> m_SessionValidity (sess (step cs w))"
  using assms
  by (simp_all add: step_sess apply_calls_hold fire_holdDown_def fire_keepalive_hold
      sessionInvalidation_def)

lemma observe_expired:
  "list_all (list_all holdDown_quiet) css \<Longrightarrow> phase (sess w) = Invalid \<Longrightarrow>
   \<not> m_SessionValidity (sess w) \<Longrightarrow>
   observe css w = replicate (Suc (length css)) False"
proof (induction css arbitrary: w)
  case Nil
  then show ?case by (simp add: isSessionValid_def)
next
  case (Cons cs css)
  from Cons.prems have q: "list_all holdDown_quiet cs"
    and qs: "list_all (list_all holdDown_quiet) css"
    by simp_all
  have "observe css (step cs w) = replicate (Suc (length css)) False"
    using step_expired[OF q Cons.prems(2,3)] by (intro Cons.IH[OF qs])
  with Cons.prems show ?case by (simp add: isSessionValid_def)
qed

lemma observe_pending:
  "list_all (list_all holdDown_quiet) css \<Longrightarrow> phase (sess w) = Valid \<Longrightarrow>
   m_SessionValidity (sess w) \<Longrightarrow> m_BGPHoldDown (sess w) = Armed d \<Longrightarrow> now w < d \<Longrightarrow>
   observe css w = replicate (min (nat (d - now w)) (Suc (length css))) True
                 @ replicate (Suc (length css) - nat (d - now w)) False"
proof (induction css arbitrary: w)
  case Nil
  then have "min (nat (d - now w)) (Suc 0) = Suc 0" by simp
  with Nil show ?case by (simp add: isSessionValid_def)
next
  case (Cons cs css)
  from Cons.prems have q: "list_all holdDown_quiet cs"
    and qs: "list_all (list_all holdDown_quiet) css"
    by simp_all
  have v: "isSessionValid (sess w)" using Cons.prems by (simp add: isSessionValid_def)
  show ?case
  proof (cases "d \<le> now w + 1")
    case True
    with Cons.prems have d: "nat (d - now w) = Suc 0" by simp
    have "observe css (step cs w) = replicate (Suc (length css)) False"
      using step_expire[OF q Cons.prems(2,4) True] by (intro observe_expired[OF qs])
    with v d show ?thesis by simp
  next
    case False
    then have lt: "now w + 1 < d" by simp
    note p = step_pending[OF q Cons.prems(2,3,4) lt]
    have n: "now (step cs w) < d" using lt by (simp add: step_now)
    have ih: "observe css (step cs w) =
        replicate (min (nat (d - now (step cs w))) (Suc (length css))) True
        @ replicate (Suc (length css) - nat (d - now (step cs w))) False"
      by (rule Cons.IH[OF qs p n])
    have e: "nat (d - now w) = Suc (nat (d - now (step cs w)))"
      using lt by (simp add: step_now)
    show ?thesis using v by (simp add: ih e)
  qed
qed

text \<open>
  C2, as the state machine has it. A session with a positive hold-down time is started
  at time \<open>t0\<close> and then runs for any number of time units during which its owner
  calls neither \<^verbatim>\<open>resetHoldDown\<close> nor \<^verbatim>\<open>sessionStop\<close> nor \<^verbatim>\<open>sessionStart\<close>
  (keepalive resets, new peer identifiers and new parameters are allowed). The answers
  of \<^verbatim>\<open>isSessionValid\<close> at the times \<open>t0, t0 + 1, \<dots>\<close> are then true at every time
  before \<open>t0 + m_HoldDownTime\<close> and false from \<open>t0 + m_HoldDownTime\<close> on, where
  \<open>m_HoldDownTime\<close> is the hold-down time at the start: the answer changes exactly
  once, from true to false, at \<open>t0 + m_HoldDownTime\<close>.
\<close>

theorem holdDown_expires_once:
  assumes "0 < m_HoldDownTime s" and "list_all (list_all holdDown_quiet) css"
  shows "observe css (started t0 s) =
           replicate (min (nat (m_HoldDownTime s)) (Suc (length css))) True
           @ replicate (Suc (length css) - nat (m_HoldDownTime s)) False"
proof -
  let ?w = "started t0 s"
  have "observe css ?w =
          replicate (min (nat (t0 + m_HoldDownTime s - now ?w)) (Suc (length css))) True
          @ replicate (Suc (length css) - nat (t0 + m_HoldDownTime s - now ?w)) False"
    using assms by (intro observe_pending) (simp_all add: started_def sessionStart_def arm_def)
  then show ?thesis by (simp add: started_def)
qed

theorem holdDown_expires_once_witness:
  "0 < m_HoldDownTime short_session
   \<and> list_all (list_all holdDown_quiet)
         [[], [CallResetKeepalive], [], [CallSetPeerIdentifier 7], [], [], [], []]
   \<and> observe [[], [CallResetKeepalive], [], [CallSetPeerIdentifier 7], [], [], [], []]
         (started 0 short_session)
       = [True, True, True, True, True, True, False, False, False]"
proof -
  have h: "0 < m_HoldDownTime short_session" by (simp add: short_session_def)
  have q: "list_all (list_all holdDown_quiet)
         [[], [CallResetKeepalive], [], [CallSetPeerIdentifier 7], [], [], [], []]" by simp
  have "nat (m_HoldDownTime short_session) = 6" by (simp add: short_session_def)
  with holdDown_expires_once[OF h q, of 0] h q show ?thesis
    by (simp add: numeral_eq_Suc)
qed

text \<open>
  C2, as stated, fails: barring \<^verbatim>\<open>resetHoldDown\<close> alone is not enough. With a
  hold-down time of 6 and no hold-down reset, a stop at time 1 makes the answer false
  at time 1, and a restart at time 7 makes it true again, so that it turns false twice
  (at 6 and at 13).
\<close>

theorem holdDown_stop_restart:
  "observe [[CallSessionStop], [], [], [], [], [], []] (started 0 short_session)
     = [True, False, False, False, False, False, False, False]
   \<and> observe [[], [], [], [], [], [], [CallSessionStart], [], [], [], [], [], [], []]
        (started 0 short_session)
     = [True, True, True, True, True, True, False, True, True, True, True, True, True, False, False]
   \<and> m_HoldDownTime short_session = 6
   \<and> CallResetHoldDown \<notin> set (concat [[CallSessionStop], [], [], [], [], [], []])
   \<and> CallResetHoldDown
        \<notin> set (concat [[], [], [], [], [], [], [CallSessionStart], [], [], [], [], [], [], []])"
  by (simp add: short_session_def session_ops)

subsection \<open>Keepalive emissions\<close>

lemma succ_mod:
  fixes n K :: int
  assumes "0 \<le> n" "0 < K"
  shows "(K dvd n + 1) = (n mod K + 1 = K)"
proof -
  have r: "0 \<le> n mod K" "n mod K < K" using assms by simp_all
  have "(K dvd n + 1) = ((n + 1) mod K = 0)" by (simp add: dvd_eq_mod_eq_0)
  also have "(n + 1) mod K = (n mod K + 1) mod K" by (simp add: mod_add_left_eq)
  also have "((n mod K + 1) mod K = 0) = (n mod K + 1 = K)"
  proof (cases "n mod K + 1 = K")
    case True then show ?thesis by simp
  next
    case False
    with r have "n mod K + 1 < K" by simp
    with r have "(n mod K + 1) mod K = n mod K + 1" by simp
    with r False show ?thesis by simp
  qed
  finally show ?thesis .
qed

lemma due_multiple:
  fixes n K :: int
  assumes "0 \<le> n" "0 < K"
  shows "((n div K + 1) * K \<le> n + 1) = (K dvd n + 1)"
proof -
  define q where "q = n div K"
  define r where "r = n mod K"
  have r: "0 \<le> r" "r < K" using assms by (simp_all add: r_def)
  have n: "n = q * K + r" by (simp add: q_def r_def)
  have "((q + 1) * K \<le> q * K + r + 1) = (r + 1 = K)"
    using r by (auto simp: algebra_simps)
  then have "((q + 1) * K \<le> n + 1) = (r + 1 = K)"
    by (simp only: n)
  then show ?thesis using succ_mod[OF assms] by (simp add: q_def r_def)
qed

lemma next_multiple_dvd:
  fixes n K :: int
  assumes "0 < K" "K dvd n + 1"
  shows "n + 1 + K = ((n + 1) div K + 1) * K"
  by (simp add: assms(2) int_distrib(2) mult.commute)

lemma next_multiple_ndvd:
  fixes n K :: int
  assumes "0 \<le> n" "0 < K" "\<not> K dvd n + 1"
  shows "(n + 1) div K = n div K"
proof -
  have r: "0 \<le> n mod K" "n mod K < K" using assms by simp_all
  from assms succ_mod[OF assms(1,2)] r have lt: "n mod K + 1 < K" by simp
  have "n + 1 = K * (n div K) + (n mod K + 1)" by simp
  then show ?thesis using r lt by (intro int_div_pos_eq) auto
qed

lemma fire_keepalive_frame:
  "m_KeepaliveTime (fst (fire_keepalive t s)) = m_KeepaliveTime s"
  "m_PeeringInterface (fst (fire_keepalive t s)) = m_PeeringInterface s"
  by (simp_all add: fire_keepalive_def sendKeepalive_def resetKeepalive_def)

lemma fire_keepalive_valid:
  assumes "phase s = Valid" "m_BGPKeepalive s = Armed d"
  shows "fire_keepalive t s =
           (if d \<le> t
            then (s\<lparr>m_BGPKeepalive := Armed (t + m_KeepaliveTime s)\<rparr>, [(t, m_PeeringInterface s)])
            else (s, []))"
  using assms by (simp add: fire_keepalive_def sendKeepalive_def resetKeepalive_def arm_def)

lemma fire_keepalive_not_valid:
  assumes "phase s \<noteq> Valid"
  shows "snd (fire_keepalive t s) = []" "phase (fst (fire_keepalive t s)) \<noteq> Valid"
  using assms by (simp_all add: fire_keepalive_def sendKeepalive_def)

lemma fire_holdDown_frame:
  "m_KeepaliveTime (fire_holdDown t s) = m_KeepaliveTime s"
  "m_PeeringInterface (fire_holdDown t s) = m_PeeringInterface s"
  "phase (fire_holdDown t s) = Valid \<Longrightarrow> phase s = Valid"
  "phase (fire_holdDown t s) = Valid \<Longrightarrow> m_BGPKeepalive (fire_holdDown t s) = m_BGPKeepalive s"
  by (simp_all add: fire_holdDown_def sessionInvalidation_def split: if_splits)

lemma apply_call_keep:
  assumes "keepalive_quiet c"
  shows "m_KeepaliveTime (apply_call t c s) = m_KeepaliveTime s"
    "m_PeeringInterface (apply_call t c s) = m_PeeringInterface s"
    "phase (apply_call t c s) = Valid \<Longrightarrow> phase s = Valid"
    "phase (apply_call t c s) = Valid \<Longrightarrow> m_BGPKeepalive (apply_call t c s) = m_BGPKeepalive s"
  using assms
  by (cases c; simp add: resetHoldDown_def sessionStop_def setPeerIdentifier_def split: if_splits)+

lemma apply_calls_keep:
  assumes "list_all keepalive_quiet cs"
  shows "m_KeepaliveTime (apply_calls t cs s) = m_KeepaliveTime s"
    "m_PeeringInterface (apply_calls t cs s) = m_PeeringInterface s"
    "phase (apply_calls t cs s) = Valid \<Longrightarrow> phase s = Valid"
    "phase (apply_calls t cs s) = Valid \<Longrightarrow> m_BGPKeepalive (apply_calls t cs s) = m_BGPKeepalive s"
  using assms
proof (induction cs arbitrary: s)
  case Nil
  { case 1 show ?case by simp next
    case 2 show ?case by simp next
    case 3 then show ?case by simp next
    case 4 then show ?case by simp }
next
  case (Cons c cs)
  { case 1 with Cons(1)[of "apply_call t c s"] show ?case by (simp add: apply_call_keep) next
    case 2 with Cons(2)[of "apply_call t c s"] show ?case by (simp add: apply_call_keep) next
    case 3 with Cons(3)[of "apply_call t c s"] show ?case by (auto dest: apply_call_keep(3)) next
    case 4
    then have v: "phase (apply_call t c s) = Valid" using Cons(3)[of "apply_call t c s"] by simp
    with 4 Cons(4)[of "apply_call t c s"] show ?case by (simp add: apply_call_keep) }
qed

lemma step_keepalive:
  assumes q: "list_all keepalive_quiet cs"
    and t: "now w = t0 + n" "0 \<le> n"
    and K: "0 < K" "m_KeepaliveTime (sess w) = K"
    and I: "m_PeeringInterface (sess w) = ifc"
    and A: "phase (sess w) = Valid \<longrightarrow> m_BGPKeepalive (sess w) = Armed (t0 + (n div K + 1) * K)"
  shows "m_KeepaliveTime (sess (step cs w)) = K"
    and "m_PeeringInterface (sess (step cs w)) = ifc"
    and "phase (sess (step cs w)) = Valid \<longrightarrow>
           m_BGPKeepalive (sess (step cs w)) = Armed (t0 + ((n + 1) div K + 1) * K)"
    and "sink (step cs w) =
           sink w @ (if K dvd n + 1 \<and> phase (sess w) = Valid then [(t0 + (n + 1), ifc)] else [])"
proof -
  let ?t = "now w + 1"
  let ?s1 = "fst (fire_keepalive ?t (sess w))"
  let ?s2 = "fire_holdDown ?t ?s1"
  have s: "sess (step cs w) = apply_calls ?t cs ?s2" by (rule step_sess)
  show "m_KeepaliveTime (sess (step cs w)) = K"
    by (simp add: s apply_calls_keep[OF q] fire_holdDown_frame fire_keepalive_frame K)
  show "m_PeeringInterface (sess (step cs w)) = ifc"
    by (simp add: s apply_calls_keep[OF q] fire_holdDown_frame fire_keepalive_frame I)
  have d: "(t0 + (n div K + 1) * K \<le> ?t) = (K dvd n + 1)"
    using due_multiple[OF t(2) K(1)] t(1) by simp
  show "sink (step cs w) =
           sink w @ (if K dvd n + 1 \<and> phase (sess w) = Valid then [(t0 + (n + 1), ifc)] else [])"
  proof (cases "phase (sess w) = Valid")
    case True
    with A have "m_BGPKeepalive (sess w) = Armed (t0 + (n div K + 1) * K)" by simp
    from fire_keepalive_valid[OF True this, of ?t] d True I t(1) show ?thesis
      by (simp add: step_sink add.assoc)
  next
    case False
    then show ?thesis by (simp add: step_sink fire_keepalive_not_valid)
  qed
  show "phase (sess (step cs w)) = Valid \<longrightarrow>
           m_BGPKeepalive (sess (step cs w)) = Armed (t0 + ((n + 1) div K + 1) * K)"
  proof
    assume v: "phase (sess (step cs w)) = Valid"
    then have v2: "phase ?s2 = Valid" unfolding s by (rule apply_calls_keep(3)[OF q])
    then have v1: "phase ?s1 = Valid" by (rule fire_holdDown_frame(3))
    have v0: "phase (sess w) = Valid"
    proof (rule ccontr)
      assume "phase (sess w) \<noteq> Valid"
      from fire_keepalive_not_valid(2)[OF this] v1 show False by simp
    qed
    with A have a: "m_BGPKeepalive (sess w) = Armed (t0 + (n div K + 1) * K)" by simp
    have "m_BGPKeepalive (sess (step cs w)) = m_BGPKeepalive ?s2"
      using v unfolding s by (rule apply_calls_keep(4)[OF q])
    also have "\<dots> = m_BGPKeepalive ?s1" using v2 by (rule fire_holdDown_frame(4))
    also have "\<dots> = Armed (t0 + ((n + 1) div K + 1) * K)"
    proof (cases "K dvd n + 1")
      case True
      with fire_keepalive_valid[OF v0 a, of ?t] d K(2) t(1)
        next_multiple_dvd[OF K(1) True]
      show ?thesis by (simp add: add.assoc)
    next
      case False
      with fire_keepalive_valid[OF v0 a, of ?t] d next_multiple_ndvd[OF t(2) K(1) False] a
      show ?thesis by simp
    qed
    finally show "m_BGPKeepalive (sess (step cs w)) = Armed (t0 + ((n + 1) div K + 1) * K)" .
  qed
qed

lemma run_keepalive:
  assumes K: "0 < m_KeepaliveTime s"
  shows "list_all (list_all keepalive_quiet) css \<Longrightarrow>
     now (run css (started t0 s)) = t0 + int (length css)
   \<and> m_KeepaliveTime (sess (run css (started t0 s))) = m_KeepaliveTime s
   \<and> m_PeeringInterface (sess (run css (started t0 s))) = m_PeeringInterface s
   \<and> (phase (sess (run css (started t0 s))) = Valid \<longrightarrow>
        m_BGPKeepalive (sess (run css (started t0 s)))
          = Armed (t0 + (int (length css) div m_KeepaliveTime s + 1) * m_KeepaliveTime s))
   \<and> sink (run css (started t0 s)) =
        map (\<lambda>j. (t0 + int j, m_PeeringInterface s))
          (filter (\<lambda>j. m_KeepaliveTime s dvd int j
                      \<and> phase (sess (run (take (j - 1) css) (started t0 s))) = Valid)
             [1..<Suc (length css)])"
proof (induction css rule: rev_induct)
  case Nil
  show ?case using K by (simp add: started_def sessionStart_def arm_def)
next
  case (snoc cs css)
  let ?K = "m_KeepaliveTime s"
  let ?w = "run css (started t0 s)"
  let ?n = "int (length css)"
  from snoc.prems have q: "list_all keepalive_quiet cs"
    and qs: "list_all (list_all keepalive_quiet) css" by simp_all
  note ih = snoc.IH[OF qs]
  from ih have t: "now ?w = t0 + ?n" and k: "m_KeepaliveTime (sess ?w) = ?K"
    and i: "m_PeeringInterface (sess ?w) = m_PeeringInterface s"
    and a: "phase (sess ?w) = Valid \<longrightarrow> m_BGPKeepalive (sess ?w) = Armed (t0 + (?n div ?K + 1) * ?K)"
    and sk: "sink ?w = map (\<lambda>j. (t0 + int j, m_PeeringInterface s))
          (filter (\<lambda>j. ?K dvd int j \<and> phase (sess (run (take (j - 1) css) (started t0 s))) = Valid)
             [1..<Suc (length css)])"
    by simp_all
  have n0: "0 \<le> ?n" by simp
  note st = step_keepalive[OF q t n0 K k i a]
  have len: "int (length (css @ [cs])) = ?n + 1" by simp
  have f1: "filter (\<lambda>j. ?K dvd int j
                \<and> phase (sess (run (take (j - 1) (css @ [cs])) (started t0 s))) = Valid)
             [1..<Suc (length css)]
        = filter (\<lambda>j. ?K dvd int j \<and> phase (sess (run (take (j - 1) css) (started t0 s))) = Valid)
             [1..<Suc (length css)]"
    by (rule filter_cong) auto
  have up: "[1..<Suc (length (css @ [cs]))] = [1..<Suc (length css)] @ [Suc (length css)]"
    by simp
  have "sink (run (css @ [cs]) (started t0 s)) =
        map (\<lambda>j. (t0 + int j, m_PeeringInterface s))
          (filter (\<lambda>j. ?K dvd int j
                      \<and> phase (sess (run (take (j - 1) (css @ [cs])) (started t0 s))) = Valid)
             [1..<Suc (length (css @ [cs]))])"
    unfolding up filter_append f1 map_append run_snoc st(4) sk
    by (simp add: add.commute)
  moreover have "now (run (css @ [cs]) (started t0 s)) = t0 + int (length (css @ [cs]))"
    using t by (simp add: run_snoc step_now)
  moreover have "m_KeepaliveTime (sess (run (css @ [cs]) (started t0 s))) = ?K"
    using st(1) by (simp add: run_snoc)
  moreover have "m_PeeringInterface (sess (run (css @ [cs]) (started t0 s))) = m_PeeringInterface s"
    using st(2) by (simp add: run_snoc)
  moreover have "phase (sess (run (css @ [cs]) (started t0 s))) = Valid \<longrightarrow>
        m_BGPKeepalive (sess (run (css @ [cs]) (started t0 s)))
          = Armed (t0 + (int (length (css @ [cs])) div ?K + 1) * ?K)"
    using st(3) unfolding len run_snoc .
  ultimately show ?case by blast
qed

text \<open>
  A session with a positive keepalive time is started at time \<open>t0\<close> and then runs
  for any number of time units during which its owner never resets the keepalive
  timer, restarts or reparametrizes the session. The keepalive messages written to
  the data-plane port are then, in order, exactly one at each time \<open>t0 + j\<close> such
  that \<open>j\<close> is a positive multiple of the keepalive time and the session was still
  in its valid state at the end of the instant before, each on the session's
  interface.
\<close>

lemma keepalive_schedule:
  assumes "0 < m_KeepaliveTime s" and "list_all (list_all keepalive_quiet) css"
  shows "sink (run css (started t0 s)) =
        map (\<lambda>j. (t0 + int j, m_PeeringInterface s))
          (filter (\<lambda>j. m_KeepaliveTime s dvd int j
                      \<and> phase (sess (run (take (j - 1) css) (started t0 s))) = Valid)
             [1..<Suc (length css)])"
  using run_keepalive[OF assms] by blast

lemma keepalive_schedule_example:
  "0 < m_KeepaliveTime short_session
   \<and> list_all (list_all keepalive_quiet) [[], [], [CallResetHoldDown], [], [], [], [], [], [], []]
   \<and> sink (run [[], [], [CallResetHoldDown], [], [], [], [], [], [], []] (started 0 short_session))
       = [(2, 0), (4, 0), (6, 0), (8, 0)]"
proof -
  have h: "0 < m_KeepaliveTime short_session" by (simp add: short_session_def)
  have q: "list_all (list_all keepalive_quiet)
             [[], [], [CallResetHoldDown], [], [], [], [], [], [], []]" by simp
  have "sink (run [[], [], [CallResetHoldDown], [], [], [], [], [], [], []] (started 0 short_session))
       = [(2, 0), (4, 0), (6, 0), (8, 0)]"
    unfolding keepalive_schedule[OF h q, of 0]
    by (simp add: short_session_def session_ops upt_rec)
  with h q show ?thesis by blast
qed

text \<open>The specification's first scenario, scaled down: hold-down 6, fraction 3, no
  traffic. Keepalives leave at 2, 4 and 6, and none after the expiry at 6.\<close>

lemma undisturbed_run:
  "sink (run (replicate 8 []) (started 0 short_session)) = [(2, 0), (4, 0), (6, 0)]"
  by (simp add: short_session_def session_ops numeral_eq_Suc)

text \<open>A stop at time 3 ends the emissions: only the keepalive of time 2 leaves. New
  parameters at time 1 (hold-down 9, fraction 3) move the later emissions off the
  multiples of either keepalive time.\<close>

lemma stopped_run:
  "sink (run [[], [], [CallSessionStop], [], [], [], [], []] (started 0 short_session)) = [(2, 0)]"
  by (simp add: short_session_def session_ops)

lemma reparametrized_run:
  "sink (run [[CallSetSessionParameters \<lparr>holdDownTime = 9, keepaliveFraction = 3\<rparr>], [], [], [], [], [], [], []]
          (started 0 short_session)) = [(2, 0), (5, 0)]"
  by (simp add: short_session_def session_ops)

subsection \<open>Late firings after a stop\<close>

lemma deliver_stopped:
  "phase s = Stopped \<Longrightarrow> deliver f s = (s, [])"
proof -
  obtain t k where f: "f = (t, k)" by (cases f)
  assume "phase s = Stopped"
  then show ?thesis unfolding f
    by (cases k) (simp_all add: sendKeepalive_def sessionInvalidation_def)
qed

lemma deliver_all_stopped:
  "phase s = Stopped \<Longrightarrow> deliver_all fs s = (s, [])"
  by (induction fs) (simp_all add: deliver_stopped)

text \<open>
  C6. After \<^verbatim>\<open>sessionStop\<close>, any sequence of timer firings that still reaches the
  session's handlers writes no keepalive message and leaves the session exactly as
  the stop left it: not valid, and with both timers unarmed.
\<close>

theorem stop_discards_late_firings:
  "deliver_all fs (sessionStop s) = (sessionStop s, [])
   \<and> \<not> isSessionValid (fst (deliver_all fs (sessionStop s)))
   \<and> m_BGPKeepalive (fst (deliver_all fs (sessionStop s))) = Unarmed
   \<and> m_BGPHoldDown (fst (deliver_all fs (sessionStop s))) = Unarmed"
  by (simp add: deliver_all_stopped sessionStop_def isSessionValid_def cancel_def)

theorem stop_discards_late_firings_witness:
  "deliver_all [(2, KeepaliveFired), (3, HoldDownFired), (4, KeepaliveFired)]
       (sessionStop running_session) = (sessionStop running_session, [])
   \<and> isSessionValid running_session
   \<and> \<not> isSessionValid (sessionStop running_session)"
  using stop_discards_late_firings[of "[(2, KeepaliveFired), (3, HoldDownFired), (4, KeepaliveFired)]"
      running_session]
  by (simp add: running_session_def quick_session_def sessionStart_def sessionStop_def
      isSessionValid_def)

section \<open>Properties of the control plane\<close>

lemma deref_Some:
  "0 \<le> i \<Longrightarrow> i < int (length arr) \<Longrightarrow> arr ! nat i \<noteq> None \<Longrightarrow>
   deref arr i = Inr (the (arr ! nat i))"
  by (auto simp: deref_def split: option.splits)

lemma deref_wf:
  "0 \<le> i \<Longrightarrow> i < int (length arr) \<Longrightarrow> list_all (\<lambda>x. x \<noteq> None) arr \<Longrightarrow>
   deref arr i = Inr (the (arr ! nat i))"
  by (auto simp: deref_def list_all_length split: option.splits)

subsection \<open>Construction\<close>

lemma BGPSession_new_fields:
  assumes "BGPSession_new i p = Inr s"
  shows "m_PeeringInterface s = i" "m_HoldDownTime s = holdDownTime p"
    "m_KeepaliveFraction s = keepaliveFraction p"
    "m_KeepaliveTime s = cpp_div (holdDownTime p) (keepaliveFraction p)"
    "phase s = Stopped" "m_BGPKeepalive s = Unarmed" "m_BGPHoldDown s = Unarmed"
  using assms
  by (auto simp: BGPSession_new_def setSessionParameters_def Let_def split: if_splits)

lemma create_sessions_run:
  "create_sessions i n p arr = Inr arr' \<Longrightarrow> 0 \<le> i \<Longrightarrow>
   length arr' = length arr
   \<and> (\<forall>j. i \<le> int j \<and> int j < n \<longrightarrow> (\<exists>s. arr' ! j = Some s \<and> BGPSession_new (int j) p = Inr s))
   \<and> (\<forall>j. int j < i \<longrightarrow> arr' ! j = arr ! j)"
proof (induction i n p arr rule: create_sessions.induct)
  case (1 i n p arr)
  show ?case
  proof (cases "i < n")
    case False
    with "1.prems" show ?thesis by (subst (asm) create_sessions.simps) auto
  next
    case True
    from "1.prems"(1) True have rng: "0 \<le> i \<and> i < int (length arr)"
      by (subst (asm) create_sessions.simps) (simp split: if_splits)
    from "1.prems"(1) True rng obtain s where s: "BGPSession_new i p = Inr s"
      and rec: "create_sessions (i + 1) n p (arr[nat i := Some s]) = Inr arr'"
      by (subst (asm) create_sessions.simps) (auto split: sum.splits)
    have ih: "length arr' = length (arr[nat i := Some s])
      \<and> (\<forall>j. i + 1 \<le> int j \<and> int j < n \<longrightarrow>
            (\<exists>s. arr' ! j = Some s \<and> BGPSession_new (int j) p = Inr s))
      \<and> (\<forall>j. int j < i + 1 \<longrightarrow> arr' ! j = arr[nat i := Some s] ! j)"
      using "1.IH"[OF True rng s rec] "1.prems"(2) by simp
    have inr: "nat i < length arr" using rng by linarith
    have here: "arr' ! nat i = Some s"
      using ih rng inr by simp
    show ?thesis
    proof (intro conjI allI impI)
      show "length arr' = length arr" using ih by simp
    next
      fix j assume j: "i \<le> int j \<and> int j < n"
      show "\<exists>s. arr' ! j = Some s \<and> BGPSession_new (int j) p = Inr s"
      proof (cases "int j = i")
        case True
        then have "nat i = j" by simp
        with here s True show ?thesis by auto
      next
        case False
        with j have "i + 1 \<le> int j \<and> int j < n" by simp
        with ih show ?thesis by blast
      qed
    next
      fix j assume j: "int j < i"
      then have "int j < i + 1" and "nat i \<noteq> j" by auto
      with ih show "arr' ! j = arr ! j" by simp
    qed
  qed
qed

text \<open>When the constructor succeeds, the slot of every index holds the session that
  the session constructor returns for that interface and the given parameters.\<close>

lemma ControlPlane_new_slots:
  assumes "ControlPlane_new n p = Inr cp"
  shows "m_SessionCount cp = n \<and> length (m_BGPSessions cp) = nat n
    \<and> (\<forall>i<nat n. \<exists>s. m_BGPSessions cp ! i = Some s
          \<and> BGPSession_new (int i) p = Inr s
          \<and> m_PeeringInterface s = int i
          \<and> m_HoldDownTime s = holdDownTime p
          \<and> m_KeepaliveFraction s = keepaliveFraction p
          \<and> m_KeepaliveTime s = cpp_div (holdDownTime p) (keepaliveFraction p))"
proof -
  from assms have n: "0 \<le> n" by (simp add: ControlPlane_new_def split: if_splits)
  from assms n obtain arr where
    cs: "create_sessions 0 n p (replicate (nat n) None) = Inr arr"
    and cp: "cp = \<lparr>m_ReceivingBuffer = [], m_SessionCount = n, m_BGPSessions = arr\<rparr>"
    by (auto simp: ControlPlane_new_def split: if_splits sum.splits)
  from create_sessions_run[OF cs] have len: "length arr = nat n"
    and each: "\<And>j. int j < n \<Longrightarrow> \<exists>s. arr ! j = Some s \<and> BGPSession_new (int j) p = Inr s"
    by auto
  show ?thesis
  proof (intro conjI allI impI)
    fix i assume "i < nat n"
    then have "int i < n" by simp
    from each[OF this] obtain s where "arr ! i = Some s" "BGPSession_new (int i) p = Inr s"
      by blast
    then show "\<exists>s. m_BGPSessions cp ! i = Some s
          \<and> BGPSession_new (int i) p = Inr s
          \<and> m_PeeringInterface s = int i
          \<and> m_HoldDownTime s = holdDownTime p
          \<and> m_KeepaliveFraction s = keepaliveFraction p
          \<and> m_KeepaliveTime s = cpp_div (holdDownTime p) (keepaliveFraction p)"
      using BGPSession_new_fields[of "int i" p s] cp by simp
  qed (simp_all add: cp len)
qed

text \<open>When the session constructor accepts the parameters and when it rejects them;
  the loop then runs to its end or stops at the first session.\<close>

lemma BGPSession_new_accepts:
  assumes "0 < holdDownTime p" "0 < keepaliveFraction p" "keepaliveFraction p \<le> holdDownTime p"
  shows "BGPSession_new i p =
     Inr \<lparr>m_BGPKeepalive = Unarmed, m_BGPHoldDown = Unarmed, m_PeeringInterface = i,
          m_HoldDownTime = holdDownTime p,
          m_KeepaliveTime = holdDownTime p div keepaliveFraction p,
          m_KeepaliveFraction = keepaliveFraction p,
          m_SessionValidity = False, m_BGPIdentifierPeer = 0, phase = Stopped\<rparr>"
proof -
  have e: "cpp_div (holdDownTime p) (keepaliveFraction p) = holdDownTime p div keepaliveFraction p"
    using assms by (simp add: cpp_div_pos)
  have "0 < holdDownTime p div keepaliveFraction p"
    using assms by (simp add: pos_imp_zdiv_pos_iff)
  with assms e show ?thesis
    by (simp add: BGPSession_new_def setSessionParameters_def Let_def)
qed

lemma BGPSession_new_rejects:
  assumes "\<not> (0 < holdDownTime p \<and> 0 < keepaliveFraction p \<and> keepaliveFraction p \<le> holdDownTime p)"
  shows "BGPSession_new i p = Inl ConfigurationError"
proof (cases "holdDownTime p \<le> 0 \<or> keepaliveFraction p = 0")
  case True
  then show ?thesis by (simp add: BGPSession_new_def setSessionParameters_def)
next
  case False
  then have h: "0 < holdDownTime p" and f0: "keepaliveFraction p \<noteq> 0" by auto
  have "cpp_div (holdDownTime p) (keepaliveFraction p) \<le> 0"
  proof (cases "keepaliveFraction p < 0")
    case True
    with h show ?thesis by (rule cpp_div_neg)
  next
    case False
    with f0 have f: "0 < keepaliveFraction p" by simp
    with assms h have "holdDownTime p < keepaliveFraction p" by simp
    with h f show ?thesis by (simp add: cpp_div_pos div_pos_pos_trivial)
  qed
  with False show ?thesis by (simp add: BGPSession_new_def setSessionParameters_def Let_def)
qed

lemma create_sessions_total:
  "0 \<le> i \<Longrightarrow> n \<le> int (length arr) \<Longrightarrow> (\<forall>j. \<exists>s. BGPSession_new j p = Inr s) \<Longrightarrow>
   \<exists>arr'. create_sessions i n p arr = Inr arr'"
proof (induction i n p arr rule: create_sessions.induct)
  case (1 i n p arr)
  show ?case
  proof (cases "i < n")
    case False
    then show ?thesis by (subst create_sessions.simps) simp
  next
    case True
    with "1.prems" have rng: "0 \<le> i \<and> i < int (length arr)" by simp
    from "1.prems"(3) obtain s where s: "BGPSession_new i p = Inr s" by blast
    have "\<exists>arr'. create_sessions (i + 1) n p (arr[nat i := Some s]) = Inr arr'"
      using "1.prems" by (intro "1.IH"[OF True rng s]) simp_all
    then show ?thesis using True rng s by (subst create_sessions.simps) simp
  qed
qed

lemma create_sessions_rejects:
  "i < n \<Longrightarrow> 0 \<le> i \<Longrightarrow> n \<le> int (length arr) \<Longrightarrow> BGPSession_new i p = Inl e \<Longrightarrow>
   create_sessions i n p arr = Inl e"
  by (subst create_sessions.simps) simp

lemma ControlPlane_new_negative:
  "n < 0 \<Longrightarrow> ControlPlane_new n p = Inl BadArrayNewLength"
  by (simp add: ControlPlane_new_def)

lemma ControlPlane_new_rejects:
  assumes "0 < n"
    and "\<not> (0 < holdDownTime p \<and> 0 < keepaliveFraction p \<and> keepaliveFraction p \<le> holdDownTime p)"
  shows "ControlPlane_new n p = Inl ConfigurationError"
proof -
  have "create_sessions 0 n p (replicate (nat n) None) = Inl ConfigurationError"
    using assms(1) BGPSession_new_rejects[OF assms(2), of 0]
    by (intro create_sessions_rejects) simp_all
  with assms(1) show ?thesis by (simp add: ControlPlane_new_def)
qed

lemma ControlPlane_new_empty:
  "ControlPlane_new 0 p = Inr \<lparr>m_ReceivingBuffer = [], m_SessionCount = 0, m_BGPSessions = []\<rparr>"
  by (simp add: ControlPlane_new_def create_sessions.simps)

text \<open>
  C10. For every session count \<open>n \<ge> 0\<close> and every parameter object the session
  constructor accepts (positive hold-down time, positive keepalive fraction not above
  the hold-down time), the constructor succeeds: the session count is \<open>n\<close>, the array
  has \<open>n\<close> slots, and the slot of every index \<open>i\<close> holds the session that the session
  constructor returns for interface \<open>i\<close> and that one parameter object. So the
  sessions ride the interfaces \<open>0, \<dots>, n - 1\<close> in order, and all have the same
  hold-down time, keepalive fraction and keepalive time.
\<close>

theorem ControlPlane_new_sessions:
  assumes "0 \<le> n" and "0 < holdDownTime p" and "0 < keepaliveFraction p"
    and "keepaliveFraction p \<le> holdDownTime p"
  shows "\<exists>cp. ControlPlane_new n p = Inr cp
    \<and> m_ReceivingBuffer cp = [] \<and> m_SessionCount cp = n \<and> length (m_BGPSessions cp) = nat n
    \<and> (\<forall>i<nat n. \<exists>s. m_BGPSessions cp ! i = Some s
          \<and> BGPSession_new (int i) p = Inr s
          \<and> m_PeeringInterface s = int i
          \<and> m_HoldDownTime s = holdDownTime p
          \<and> m_KeepaliveFraction s = keepaliveFraction p
          \<and> m_KeepaliveTime s = holdDownTime p div keepaliveFraction p)"
proof -
  have acc: "\<forall>j. \<exists>s. BGPSession_new j p = Inr s"
    using BGPSession_new_accepts[OF assms(2,3,4)] by blast
  from create_sessions_total[OF _ _ acc, of 0 n "replicate (nat n) None"] assms(1)
  obtain arr where cs: "create_sessions 0 n p (replicate (nat n) None) = Inr arr" by auto
  let ?cp = "\<lparr>m_ReceivingBuffer = [], m_SessionCount = n, m_BGPSessions = arr\<rparr>"
  have new: "ControlPlane_new n p = Inr ?cp"
    using cs assms(1) by (simp add: ControlPlane_new_def)
  from create_sessions_run[OF cs] have len: "length arr = nat n"
    and each: "\<And>j. int j < n \<Longrightarrow> \<exists>s. arr ! j = Some s \<and> BGPSession_new (int j) p = Inr s"
    by auto
  have slots: "\<forall>i<nat n. \<exists>s. m_BGPSessions ?cp ! i = Some s
          \<and> BGPSession_new (int i) p = Inr s
          \<and> m_PeeringInterface s = int i
          \<and> m_HoldDownTime s = holdDownTime p
          \<and> m_KeepaliveFraction s = keepaliveFraction p
          \<and> m_KeepaliveTime s = holdDownTime p div keepaliveFraction p"
  proof (intro allI impI)
    fix i assume "i < nat n"
    then have "int i < n" by simp
    from each[OF this] obtain s where s: "arr ! i = Some s" "BGPSession_new (int i) p = Inr s"
      by blast
    from s(2) BGPSession_new_accepts[OF assms(2,3,4), of "int i"]
    have "m_PeeringInterface s = int i \<and> m_HoldDownTime s = holdDownTime p
          \<and> m_KeepaliveFraction s = keepaliveFraction p
          \<and> m_KeepaliveTime s = holdDownTime p div keepaliveFraction p"
      by auto
    with s show "\<exists>s. m_BGPSessions ?cp ! i = Some s
          \<and> BGPSession_new (int i) p = Inr s
          \<and> m_PeeringInterface s = int i
          \<and> m_HoldDownTime s = holdDownTime p
          \<and> m_KeepaliveFraction s = keepaliveFraction p
          \<and> m_KeepaliveTime s = holdDownTime p div keepaliveFraction p"
      by simp
  qed
  show ?thesis
    by (rule exI[of _ ?cp]) (use new len slots in simp)
qed

theorem ControlPlane_new_sessions_witness:
  "(0::int) \<le> 2 \<and> 0 < holdDownTime \<lparr>holdDownTime = 180, keepaliveFraction = 3\<rparr>
   \<and> 0 < keepaliveFraction \<lparr>holdDownTime = 180, keepaliveFraction = 3\<rparr>
   \<and> keepaliveFraction \<lparr>holdDownTime = 180, keepaliveFraction = 3\<rparr>
        \<le> holdDownTime \<lparr>holdDownTime = 180, keepaliveFraction = 3\<rparr>
   \<and> ControlPlane_new 2 \<lparr>holdDownTime = 180, keepaliveFraction = 3\<rparr> = Inr two_idle
   \<and> m_SessionCount two_idle = 2 \<and> length (m_BGPSessions two_idle) = nat 2
   \<and> m_BGPSessions two_idle ! 0 = Some (idle_session 0)
   \<and> m_BGPSessions two_idle ! 1 = Some (idle_session 1)
   \<and> m_PeeringInterface (idle_session 0) = 0 \<and> m_PeeringInterface (idle_session 1) = 1
   \<and> m_HoldDownTime (idle_session 0) = m_HoldDownTime (idle_session 1)
   \<and> m_KeepaliveTime (idle_session 0) = m_KeepaliveTime (idle_session 1)"
proof -
  let ?p = "\<lparr>holdDownTime = 180, keepaliveFraction = 3\<rparr>"
  have h1: "(0::int) \<le> 2" and h2: "0 < holdDownTime ?p" and h3: "0 < keepaliveFraction ?p"
    and h4: "keepaliveFraction ?p \<le> holdDownTime ?p" by simp_all
  from ControlPlane_new_sessions[OF h1 h2 h3 h4] obtain cp :: "unit ControlPlane" where
    c: "ControlPlane_new 2 ?p = Inr cp" and n: "m_SessionCount cp = 2"
    and l: "length (m_BGPSessions cp) = nat 2" by blast
  have e: "ControlPlane_new 2 ?p = Inr two_idle"
    by (simp add: ControlPlane_new_def create_sessions.simps BGPSession_new_def
      setSessionParameters_def cpp_div_def two_idle_def idle_session_def numeral_2_eq_2)
  with c have "cp = two_idle" by simp
  with n l e show ?thesis by (simp add: two_idle_def idle_session_def)
qed

text \<open>The constructor leaves a well-formed control plane.\<close>

lemma ControlPlane_new_wf:
  assumes "ControlPlane_new n p = Inr cp"
  shows "wf_ControlPlane cp"
proof -
  from assms have n: "0 \<le> n" by (simp add: ControlPlane_new_def split: if_splits)
  from assms n obtain arr where
    cs: "create_sessions 0 n p (replicate (nat n) None) = Inr arr"
    and cp: "cp = \<lparr>m_ReceivingBuffer = [], m_SessionCount = n, m_BGPSessions = arr\<rparr>"
    by (auto simp: ControlPlane_new_def split: if_splits sum.splits)
  from create_sessions_run[OF cs] have len: "length arr = nat n"
    and each: "\<And>j. int j < n \<Longrightarrow> \<exists>s. arr ! j = Some s \<and> BGPSession_new (int j) p = Inr s"
    by auto
  have "\<forall>j<length arr. arr ! j \<noteq> None"
  proof (intro allI impI)
    fix j assume "j < length arr"
    with len have "int j < n" by simp
    from each[OF this] show "arr ! j \<noteq> None" by auto
  qed
  then show ?thesis using len n by (simp add: wf_ControlPlane_def cp list_all_length)
qed

lemma one_session_constructed:
  "ControlPlane_new 1 \<lparr>holdDownTime = 3, keepaliveFraction = 3\<rparr> = Inr one_session"
  by (simp add: ControlPlane_new_def create_sessions.simps BGPSession_new_def
      setSessionParameters_def cpp_div_def one_session_def quick_session_def)

lemma one_session_started:
  "start_sessions 0 0 one_session [] = Inr (one_running, [SessionStart 0])"
  by (simp add: start_sessions.simps deref_def one_session_def one_running_def
      running_session_def)

subsection \<open>One wake of the main loop\<close>

lemma verify_sessions_frame:
  "verify_sessions i cp tr = Inr (cp', tr') \<Longrightarrow> cp' = cp"
proof (induction i cp tr rule: verify_sessions.induct)
  case (1 i cp tr)
  show ?case
  proof (cases "i < m_SessionCount cp")
    case True
    with "1.prems" obtain s where d: "deref (m_BGPSessions cp) i = Inr s"
      by (subst (asm) verify_sessions.simps) (auto split: sum.splits)
    from True d "1.prems"
    have "verify_sessions (i + 1) cp (tr @ [IsSessionValid i (isSessionValid s)]) = Inr (cp', tr')"
      by (subst (asm) verify_sessions.simps) (simp add: Let_def)
    with "1.IH"[OF True d refl refl] show ?thesis by simp
  next
    case False
    with "1.prems" show ?thesis by (subst (asm) verify_sessions.simps) simp
  qed
qed

lemma controlPlaneMain_wake_frame:
  "controlPlaneMain_wake cp = Inr (cp', tr) \<Longrightarrow> cp' = cp"
  by (auto simp: controlPlaneMain_wake_def Let_def dest: verify_sessions_frame)

lemma verify_sessions_trace:
  "wf_ControlPlane cp \<Longrightarrow> 0 \<le> i \<Longrightarrow> i \<le> m_SessionCount cp \<Longrightarrow>
   verify_sessions i cp tr =
     Inr (cp, tr @ map (\<lambda>j. IsSessionValid (int j) (isSessionValid (the (m_BGPSessions cp ! j))))
                    [nat i..<nat (m_SessionCount cp)])"
proof (induction i cp tr rule: verify_sessions.induct)
  case (1 i cp tr)
  show ?case
  proof (cases "i < m_SessionCount cp")
    case True
    with "1.prems" have d: "deref (m_BGPSessions cp) i = Inr (the (m_BGPSessions cp ! nat i))"
      by (intro deref_wf) (auto simp: wf_ControlPlane_def)
    have lt: "nat i < nat (m_SessionCount cp)" using True "1.prems"(2) by linarith
    have sc: "nat (i + 1) = Suc (nat i)" using "1.prems"(2) by linarith
    have up: "[nat i..<nat (m_SessionCount cp)] = nat i # [nat (i + 1)..<nat (m_SessionCount cp)]"
      unfolding sc by (rule upt_conv_Cons[OF lt])
    have "verify_sessions i cp tr =
            verify_sessions (i + 1) cp
              (tr @ [IsSessionValid i (isSessionValid (the (m_BGPSessions cp ! nat i)))])"
      using True d by (subst verify_sessions.simps) (simp add: Let_def)
    also have "\<dots> =
       Inr (cp, (tr @ [IsSessionValid i (isSessionValid (the (m_BGPSessions cp ! nat i)))])
                @ map (\<lambda>j. IsSessionValid (int j) (isSessionValid (the (m_BGPSessions cp ! j))))
                    [nat (i + 1)..<nat (m_SessionCount cp)])"
      using "1.IH"[OF True d refl refl] "1.prems" True by simp
    finally show ?thesis using up "1.prems"(2) by simp
  next
    case False
    with "1.prems" show ?thesis by (subst verify_sessions.simps) simp
  qed
qed

lemma controlPlaneMain_wake_run:
  assumes "wf_ControlPlane cp"
  shows "controlPlaneMain_wake cp =
           Inr (cp, NumAvailable (length (m_ReceivingBuffer cp))
                    # map (\<lambda>j. IsSessionValid (int j) (isSessionValid (the (m_BGPSessions cp ! j))))
                        [0..<length (m_BGPSessions cp)])"
proof -
  from assms have c: "m_SessionCount cp = int (length (m_BGPSessions cp))"
    by (simp add: wf_ControlPlane_def)
  from verify_sessions_trace[OF assms, of 0 "[NumAvailable (length (m_ReceivingBuffer cp))]"] c
  show ?thesis by (simp add: controlPlaneMain_wake_def Let_def)
qed

text \<open>
  C9. One wake of the main loop on a control plane as its constructor leaves it
  (whatever its sessions have done since) returns the control plane unchanged: every
  session keeps its validity flag, peer identifier, parameters, timers and phase, and
  the receiving buffer keeps its messages. The only calls made are
  \<^verbatim>\<open>num_available\<close> on the buffer and \<^verbatim>\<open>isSessionValid\<close> on each session, in index
  order.
\<close>

theorem wake_cycle_frame:
  assumes "wf_ControlPlane cp"
  shows "controlPlaneMain_wake cp =
           Inr (cp, NumAvailable (length (m_ReceivingBuffer cp))
                    # map (\<lambda>j. IsSessionValid (int j) (isSessionValid (the (m_BGPSessions cp ! j))))
                        [0..<length (m_BGPSessions cp)])"
proof -
  from assms have c: "m_SessionCount cp = int (length (m_BGPSessions cp))"
    by (simp add: wf_ControlPlane_def)
  have "verify_sessions 0 cp [NumAvailable (length (m_ReceivingBuffer cp))] =
          Inr (cp, [NumAvailable (length (m_ReceivingBuffer cp))]
                   @ map (\<lambda>j. IsSessionValid (int j) (isSessionValid (the (m_BGPSessions cp ! j))))
                       [nat 0..<nat (m_SessionCount cp)])"
    using assms c by (intro verify_sessions_trace) simp_all
  then show ?thesis using c by (simp add: controlPlaneMain_wake_def Let_def)
qed

theorem wake_cycle_frame_witness:
  "wf_ControlPlane two_idle
   \<and> controlPlaneMain_wake two_idle =
       Inr (two_idle, [NumAvailable 0, IsSessionValid 0 False, IsSessionValid 1 False])"
proof -
  have h: "wf_ControlPlane two_idle"
    by (simp add: wf_ControlPlane_def two_idle_def)
  from wake_cycle_frame[OF h] h show ?thesis
    by (simp add: two_idle_def idle_session_def isSessionValid_def upt_rec)
qed

subsection \<open>The whole main loop\<close>

lemma wait_clk_wf: "wf_ControlPlane (wait_clk t arrivals cp) = wf_ControlPlane cp"
  by (cases "m_BGPSessions cp = []")
     (auto simp: wf_ControlPlane_def wait_clk_def list_all_length)

lemma start_sessions_run:
  "m_SessionCount cp = int (length (m_BGPSessions cp)) \<Longrightarrow> 0 \<le> i \<Longrightarrow>
   list_all (\<lambda>x. x \<noteq> None) (m_BGPSessions cp) \<Longrightarrow>
   \<exists>arr'. start_sessions t i cp tr =
       Inr (cp\<lparr>m_BGPSessions := arr'\<rparr>,
            tr @ map (\<lambda>j. SessionStart (int j)) [nat i..<nat (m_SessionCount cp)])
     \<and> length arr' = length (m_BGPSessions cp)
     \<and> (\<forall>j. nat i \<le> j \<and> j < length arr' \<longrightarrow>
           arr' ! j = Some (sessionStart t (the (m_BGPSessions cp ! j))))
     \<and> (\<forall>j. j < nat i \<longrightarrow> arr' ! j = m_BGPSessions cp ! j)"
proof (induction t i cp tr rule: start_sessions.induct)
  case (1 t i cp tr)
  let ?arr = "m_BGPSessions cp"
  let ?n = "nat (m_SessionCount cp)"
  show ?case
  proof (cases "i < m_SessionCount cp")
    case False
    with "1.prems" show ?thesis
      by (subst start_sessions.simps) (auto intro!: exI[of _ ?arr])
  next
    case True
    have lt: "nat i < ?n" using True "1.prems"(2) by linarith
    have sc: "nat (i + 1) = Suc (nat i)" using "1.prems"(2) by linarith
    have up: "[nat i..<?n] = nat i # [Suc (nat i)..<?n]"
      by (rule upt_conv_Cons[OF lt])
    have inr: "nat i < length ?arr" using lt "1.prems"(1) by simp
    have d: "deref ?arr i = Inr (the (?arr ! nat i))"
      using True "1.prems" by (intro deref_wf) auto
    let ?s = "the (?arr ! nat i)"
    let ?arr1 = "?arr[nat i := Some (sessionStart t ?s)]"
    let ?cp1 = "cp\<lparr>m_BGPSessions := ?arr1\<rparr>"
    have all1: "list_all (\<lambda>x. x \<noteq> None) ?arr1"
      unfolding list_all_length
    proof (intro allI impI)
      fix m assume m: "m < length ?arr1"
      show "?arr1 ! m \<noteq> None"
      proof (cases "m = nat i")
        case True with m show ?thesis by simp
      next
        case False
        with m "1.prems"(3) show ?thesis by (simp add: list_all_length)
      qed
    qed
    have "\<exists>arr'. start_sessions t (i + 1) ?cp1 (tr @ [SessionStart i]) =
       Inr (?cp1\<lparr>m_BGPSessions := arr'\<rparr>,
            (tr @ [SessionStart i])
            @ map (\<lambda>j. SessionStart (int j)) [nat (i + 1)..<nat (m_SessionCount ?cp1)])
     \<and> length arr' = length (m_BGPSessions ?cp1)
     \<and> (\<forall>j. nat (i + 1) \<le> j \<and> j < length arr' \<longrightarrow>
           arr' ! j = Some (sessionStart t (the (m_BGPSessions ?cp1 ! j))))
     \<and> (\<forall>j. j < nat (i + 1) \<longrightarrow> arr' ! j = m_BGPSessions ?cp1 ! j)"
      using "1.prems" all1 by (intro "1.IH"[OF True d]) auto
    then obtain arr' where
      r0: "start_sessions t (i + 1) ?cp1 (tr @ [SessionStart i]) =
       Inr (cp\<lparr>m_BGPSessions := arr'\<rparr>,
            (tr @ [SessionStart i]) @ map (\<lambda>j. SessionStart (int j)) [Suc (nat i)..<?n])"
      and l: "length arr' = length ?arr"
      and z: "\<forall>j. Suc (nat i) \<le> j \<and> j < length arr' \<longrightarrow>
                arr' ! j = Some (sessionStart t (the (?arr1 ! j)))"
      and k: "\<forall>j. j < Suc (nat i) \<longrightarrow> arr' ! j = ?arr1 ! j"
      using sc by auto
    have here_ev: "SessionStart i = SessionStart (int (nat i))"
      using "1.prems"(2) by simp
    have r: "start_sessions t (i + 1) ?cp1 (tr @ [SessionStart i]) =
       Inr (cp\<lparr>m_BGPSessions := arr'\<rparr>,
            tr @ map (\<lambda>j. SessionStart (int j)) [nat i..<?n])"
      unfolding r0 up using here_ev by simp
    have unf: "start_sessions t i cp tr = start_sessions t (i + 1) ?cp1 (tr @ [SessionStart i])"
      using True d by (subst start_sessions.simps) simp
    have here: "arr' ! nat i = Some (sessionStart t ?s)" using k inr by simp
    have z': "\<forall>j. nat i \<le> j \<and> j < length arr' \<longrightarrow>
                arr' ! j = Some (sessionStart t (the (?arr ! j)))"
    proof (intro allI impI)
      fix j assume j: "nat i \<le> j \<and> j < length arr'"
      show "arr' ! j = Some (sessionStart t (the (?arr ! j)))"
      proof (cases "j = nat i")
        case True with here show ?thesis by simp
      next
        case False
        with j have "Suc (nat i) \<le> j \<and> j < length arr'" by simp
        with z False show ?thesis by simp
      qed
    qed
    have k': "\<forall>j. j < nat i \<longrightarrow> arr' ! j = ?arr ! j"
      using k by auto
    from unf r have "start_sessions t i cp tr =
       Inr (cp\<lparr>m_BGPSessions := arr'\<rparr>,
            tr @ map (\<lambda>j. SessionStart (int j)) [nat i..<?n])"
      by simp
    with l z' k' show ?thesis by (intro exI[of _ arr'] conjI)
  qed
qed

lemma start_sessions_all:
  assumes "wf_ControlPlane cp"
  shows "start_sessions t 0 cp [] =
           Inr (cp\<lparr>m_BGPSessions := map (\<lambda>x. Some (sessionStart t (the x))) (m_BGPSessions cp)\<rparr>,
                map (\<lambda>j. SessionStart (int j)) [0..<length (m_BGPSessions cp)])"
proof -
  from assms have c: "m_SessionCount cp = int (length (m_BGPSessions cp))"
    and a: "list_all (\<lambda>x. x \<noteq> None) (m_BGPSessions cp)"
    by (simp_all add: wf_ControlPlane_def)
  from start_sessions_run[OF c _ a, of 0 t "[]"] obtain arr' where
    r: "start_sessions t 0 cp [] = Inr (cp\<lparr>m_BGPSessions := arr'\<rparr>,
            map (\<lambda>j. SessionStart (int j)) [0..<nat (m_SessionCount cp)])"
    and l: "length arr' = length (m_BGPSessions cp)"
    and z: "\<forall>j. j < length arr' \<longrightarrow> arr' ! j = Some (sessionStart t (the (m_BGPSessions cp ! j)))"
    by auto
  have "arr' = map (\<lambda>x. Some (sessionStart t (the x))) (m_BGPSessions cp)"
    using l z by (intro nth_equalityI) simp_all
  with r c show ?thesis by simp
qed

lemma start_sessions_wf:
  assumes "wf_ControlPlane cp"
  shows "wf_ControlPlane
           (cp\<lparr>m_BGPSessions := map (\<lambda>x. Some (sessionStart t (the x))) (m_BGPSessions cp)\<rparr>)"
  using assms by (simp add: wf_ControlPlane_def list_all_length)

text \<open>
  Started on a well-formed control plane, \<^verbatim>\<open>controlPlaneMain\<close> runs through any
  number of clock periods, whatever arrives in the buffer, without meeting an invalid
  pointer, and the only calls it makes are \<^verbatim>\<open>sessionStart\<close>, \<^verbatim>\<open>num_available\<close>
  and \<^verbatim>\<open>isSessionValid\<close>.
\<close>

lemma controlPlaneMain_loop_run:
  "wf_ControlPlane cp \<Longrightarrow> list_all is_query tr \<Longrightarrow>
   \<exists>cp' tr'. controlPlaneMain_loop clk t cp tr = Inr (cp', tr') \<and> wf_ControlPlane cp'
      \<and> list_all is_query tr'"
proof (induction clk arbitrary: t cp tr)
  case Nil
  then show ?case by simp
next
  case (Cons arrivals rest)
  let ?cp1 = "wait_clk (t + 1) arrivals cp"
  let ?tr1 = "NumAvailable (length (m_ReceivingBuffer ?cp1))
                # map (\<lambda>j. IsSessionValid (int j) (isSessionValid (the (m_BGPSessions ?cp1 ! j))))
                    [0..<length (m_BGPSessions ?cp1)]"
  have w: "wf_ControlPlane ?cp1" using Cons.prems(1) by (simp add: wait_clk_wf)
  have q: "list_all is_query (tr @ ?tr1)"
    using Cons.prems(2) by (auto simp: list_all_iff)
  from Cons.IH[OF w q, of "t + 1"] controlPlaneMain_wake_run[OF w]
  show ?case by simp
qed

lemma controlPlaneMain_run:
  assumes "wf_ControlPlane cp"
  shows "\<exists>cp' tr. controlPlaneMain clk t0 cp = Inr (cp', tr) \<and> wf_ControlPlane cp'
      \<and> list_all is_query tr"
proof -
  let ?cp1 = "cp\<lparr>m_BGPSessions := map (\<lambda>x. Some (sessionStart t0 (the x))) (m_BGPSessions cp)\<rparr>"
  let ?tr1 = "map (\<lambda>j. SessionStart (int j)) [0..<length (m_BGPSessions cp)]"
  have w: "wf_ControlPlane ?cp1" using assms by (rule start_sessions_wf)
  have q: "list_all is_query ?tr1" by (auto simp: list_all_iff)
  from controlPlaneMain_loop_run[OF w q, of clk t0] start_sessions_all[OF assms, of t0]
  show ?thesis by (simp add: controlPlaneMain_def)
qed

text \<open>In particular it never resets a timer, removes a route or raises a
  notification.\<close>

lemma is_query_quiet: "is_query e \<Longrightarrow> \<not> is_reset e \<and> \<not> is_withdrawal e"
  by (cases e) simp_all

lemma controlPlaneMain_never_reacts:
  assumes "wf_ControlPlane cp"
  shows "\<exists>cp' tr. controlPlaneMain clk t0 cp = Inr (cp', tr)
      \<and> \<not> list_ex is_reset tr \<and> \<not> list_ex is_withdrawal tr"
proof -
  from controlPlaneMain_run[OF assms, of clk t0] obtain cp' tr where
    r: "controlPlaneMain clk t0 cp = Inr (cp', tr)" and q: "list_all is_query tr"
    by blast
  from q have "\<not> list_ex is_reset tr" "\<not> list_ex is_withdrawal tr"
    by (auto simp: list_all_iff list_ex_iff dest: is_query_quiet)
  with r show ?thesis by blast
qed


text \<open>
  C1. A control plane with one session (hold-down 3, fraction 3) is started at time 0
  and woken at times 1, 2 and 3 with no traffic. At the third wake
  \<^verbatim>\<open>isSessionValid\<close> answers false for session 0, and the log of the run ends there:
  no route removal and no notification follows.
\<close>

theorem expired_session_not_withdrawn:
  "map_sum id snd (controlPlaneMain [[], [], []] 0 one_session) =
     Inr [SessionStart 0,
          NumAvailable 0, IsSessionValid 0 True,
          NumAvailable 0, IsSessionValid 0 True,
          NumAvailable 0, IsSessionValid 0 False]"
  by (simp add: supervisor_ops one_session_def quick_session_def session_ops)

text \<open>
  C4. The same control plane receives, before each of its three wakes, one message
  from the peer of session 0. The log shows the messages piling up in the buffer
  (1, 2, 3 available) and no call of \<^verbatim>\<open>isThisSession\<close> or \<^verbatim>\<open>resetHoldDown\<close>: the
  hold-down timer is never reset and the session is invalid at time 3.
\<close>

theorem peer_messages_not_handled:
  "isThisSession 0 quick_session \<and>
   map_sum id snd (controlPlaneMain [[0], [0], [0]] 0 one_session) =
     Inr [SessionStart 0,
          NumAvailable 1, IsSessionValid 0 True,
          NumAvailable 2, IsSessionValid 0 True,
          NumAvailable 3, IsSessionValid 0 False]"
  by (simp add: supervisor_ops one_session_def quick_session_def session_ops isThisSession_def)

subsection \<open>Destruction\<close>

lemma delete_sessions_run:
  "m_SessionCount cp = int (length (m_BGPSessions cp)) \<Longrightarrow> 0 \<le> i \<Longrightarrow>
   (\<forall>j. nat i \<le> j \<and> j < length (m_BGPSessions cp) \<longrightarrow> m_BGPSessions cp ! j \<noteq> None) \<Longrightarrow>
   \<exists>arr'. delete_sessions i cp tr =
       Inr (cp\<lparr>m_BGPSessions := arr'\<rparr>,
            tr @ map (\<lambda>j. DeleteSession (int j) (the (m_BGPSessions cp ! j)))
                   [nat i..<nat (m_SessionCount cp)])
     \<and> length arr' = length (m_BGPSessions cp)
     \<and> (\<forall>j. nat i \<le> j \<and> j < length arr' \<longrightarrow> arr' ! j = None)
     \<and> (\<forall>j. j < nat i \<longrightarrow> arr' ! j = m_BGPSessions cp ! j)"
proof (induction i cp tr rule: delete_sessions.induct)
  case (1 i cp tr)
  let ?arr = "m_BGPSessions cp"
  let ?n = "nat (m_SessionCount cp)"
  show ?case
  proof (cases "i < m_SessionCount cp")
    case False
    with "1.prems" show ?thesis
      by (subst delete_sessions.simps) (auto intro!: exI[of _ ?arr])
  next
    case True
    have lt: "nat i < ?n" using True "1.prems"(2) by linarith
    have sc: "nat (i + 1) = Suc (nat i)" using "1.prems"(2) by linarith
    have up: "[nat i..<?n] = nat i # [Suc (nat i)..<?n]"
      by (rule upt_conv_Cons[OF lt])
    have inr: "nat i < length ?arr" using lt "1.prems"(1) by simp
    then have "?arr ! nat i \<noteq> None" using "1.prems"(3) by blast
    then have d: "deref ?arr i = Inr (the (?arr ! nat i))"
      using True "1.prems"(1,2) by (intro deref_Some) auto
    let ?s = "the (?arr ! nat i)"
    let ?cp1 = "cp\<lparr>m_BGPSessions := ?arr[nat i := None]\<rparr>"
    have "\<exists>arr'. delete_sessions (i + 1) ?cp1 (tr @ [DeleteSession i ?s]) =
       Inr (?cp1\<lparr>m_BGPSessions := arr'\<rparr>,
            (tr @ [DeleteSession i ?s])
            @ map (\<lambda>j. DeleteSession (int j) (the (m_BGPSessions ?cp1 ! j)))
                [nat (i + 1)..<nat (m_SessionCount ?cp1)])
     \<and> length arr' = length (m_BGPSessions ?cp1)
     \<and> (\<forall>j. nat (i + 1) \<le> j \<and> j < length arr' \<longrightarrow> arr' ! j = None)
     \<and> (\<forall>j. j < nat (i + 1) \<longrightarrow> arr' ! j = m_BGPSessions ?cp1 ! j)"
      using "1.prems" sc by (intro "1.IH"[OF True d]) auto
    then obtain arr' where
      r0: "delete_sessions (i + 1) ?cp1 (tr @ [DeleteSession i ?s]) =
       Inr (cp\<lparr>m_BGPSessions := arr'\<rparr>,
            (tr @ [DeleteSession i ?s])
            @ map (\<lambda>j. DeleteSession (int j) (the (?arr[nat i := None] ! j)))
                [Suc (nat i)..<?n])"
      and l: "length arr' = length ?arr"
      and z: "\<forall>j. Suc (nat i) \<le> j \<and> j < length arr' \<longrightarrow> arr' ! j = None"
      and k: "\<forall>j. j < Suc (nat i) \<longrightarrow> arr' ! j = ?arr[nat i := None] ! j"
      using sc by auto
    have same: "map (\<lambda>j. DeleteSession (int j) (the (?arr[nat i := None] ! j))) [Suc (nat i)..<?n]
              = map (\<lambda>j. DeleteSession (int j) (the (?arr ! j))) [Suc (nat i)..<?n]"
      by (rule map_cong) auto
    have here_ev: "DeleteSession i ?s = DeleteSession (int (nat i)) (the (?arr ! nat i))"
      using "1.prems"(2) by simp
    have r: "delete_sessions (i + 1) ?cp1 (tr @ [DeleteSession i ?s]) =
       Inr (cp\<lparr>m_BGPSessions := arr'\<rparr>,
            tr @ map (\<lambda>j. DeleteSession (int j) (the (?arr ! j))) [nat i..<?n])"
      unfolding r0 same up using here_ev by simp
    have unf: "delete_sessions i cp tr = delete_sessions (i + 1) ?cp1 (tr @ [DeleteSession i ?s])"
      using True d by (subst delete_sessions.simps) simp
    have here: "arr' ! nat i = None" using k inr by simp
    have z': "\<forall>j. nat i \<le> j \<and> j < length arr' \<longrightarrow> arr' ! j = None"
    proof (intro allI impI)
      fix j assume j: "nat i \<le> j \<and> j < length arr'"
      show "arr' ! j = None"
        using j z here by (cases "j = nat i") auto
    qed
    have k': "\<forall>j. j < nat i \<longrightarrow> arr' ! j = ?arr ! j"
      using k by auto
    from unf r have "delete_sessions i cp tr =
       Inr (cp\<lparr>m_BGPSessions := arr'\<rparr>,
            tr @ map (\<lambda>j. DeleteSession (int j) (the (?arr ! j))) [nat i..<?n])"
      by simp
    with l z' k' show ?thesis by (intro exI[of _ arr'] conjI)
  qed
qed


text \<open>The loop deletes every owned session exactly once, in index order and in the
  state the session is in, and makes no other call; the destructor then meets the
  mismatched delete and never returns normally.\<close>

lemma delete_sessions_all:
  assumes "wf_ControlPlane cp"
  shows "delete_sessions 0 cp [] =
           Inr (cp\<lparr>m_BGPSessions := replicate (length (m_BGPSessions cp)) None\<rparr>,
                map (\<lambda>j. DeleteSession (int j) (the (m_BGPSessions cp ! j)))
                  [0..<length (m_BGPSessions cp)])"
proof -
  from assms have c: "m_SessionCount cp = int (length (m_BGPSessions cp))"
    and a: "\<forall>j. nat 0 \<le> j \<and> j < length (m_BGPSessions cp) \<longrightarrow> m_BGPSessions cp ! j \<noteq> None"
    by (auto simp: wf_ControlPlane_def list_all_length)
  from delete_sessions_run[OF c _ a, of "[]"] obtain arr' where
    r: "delete_sessions 0 cp [] = Inr (cp\<lparr>m_BGPSessions := arr'\<rparr>,
        map (\<lambda>j. DeleteSession (int j) (the (m_BGPSessions cp ! j)))
          [0..<nat (m_SessionCount cp)])"
    and l: "length arr' = length (m_BGPSessions cp)"
    and z: "\<forall>j. j < length arr' \<longrightarrow> arr' ! j = None"
    by auto
  have "arr' = replicate (length (m_BGPSessions cp)) None"
    using l z by (intro nth_equalityI) simp_all
  with r c show ?thesis by simp
qed

lemma ControlPlane_delete_undefined:
  assumes "wf_ControlPlane cp"
  shows "ControlPlane_delete cp = Inl MismatchedDelete"
  using delete_sessions_all[OF assms] by (simp add: ControlPlane_delete_def)

lemma ControlPlane_delete_never_returns: "ControlPlane_delete cp \<noteq> Inr r"
  by (simp add: ControlPlane_delete_def split: sum.splits prod.splits)


end
